theory Spec2Isabelle
  imports Main "HOL-Library.Word" "HOL-Library.Log_Nat" "HOL-Library.Multiset"
begin

section \<open>JavaScript values used by script.js\<close>

subsection \<open>Strings\<close>

text \<open>
  A JavaScript string is a sequence of 16-bit code units; \<open>length\<close> counts code units and
  \<open>s[i]\<close> reads one. \<open>str\<close> writes an ASCII literal as such a sequence.
\<close>

type_synonym code_unit = "16 word"
type_synonym js_string = "code_unit list"

definition str :: "string \<Rightarrow> js_string" where
  "str s = map (\<lambda>c. of_nat (of_char c)) s"

subsection \<open>Numbers\<close>

text \<open>
  A JavaScript Number is an IEEE 754 binary64 value. The finite ones are modelled as the
  rationals they denote; every arithmetic operation computes the exact result and rounds it
  to the nearest value with a 53-bit significand, ties to even (\<open>fl\<close>). The exponent range
  is not bounded in the model: the magnitudes script.js reaches (string lengths, millisecond
  timestamps and their quotients) lie far inside binary64's normal range, so neither
  overflow nor gradual underflow occurs there. Integers below \<open>2^53\<close> in magnitude, such
  as string lengths and differences of timestamps, are Numbers exactly. \<open>NaN\<close> and the
  infinities do not arise: every division in \<open>endTest\<close> is by a constant or behind a test
  that the divisor is positive.
\<close>

type_synonym number = rat

text \<open>\<open>ilog2 x\<close> is the binary exponent of a positive \<open>x\<close>: the \<open>e\<close> with \<open>2^e \<le> x < 2^(e+1)\<close>.\<close>

definition ilog2 :: "rat \<Rightarrow> int" where
  "ilog2 x = (if 1 \<le> x then int (floorlog 2 (nat \<lfloor>x\<rfloor>)) - 1
              else - int (floorlog 2 (nat (\<lceil>1 / x\<rceil> - 1))))"

text \<open>Round to the nearest integer, ties to the even one.\<close>

definition rne :: "rat \<Rightarrow> int" where
  "rne m = (let f = \<lfloor>m\<rfloor>; r = m - of_int f in
            if r < 1 / 2 then f
            else if 1 / 2 < r then f + 1
            else if even f then f else f + 1)"

definition fl :: "rat \<Rightarrow> number" where
  "fl x = (if x = 0 then 0
           else let a = \<bar>x\<bar>; e = ilog2 a - 52
                in sgn x * of_int (rne (a / power_int 2 e)) * power_int 2 e)"

definition num_div :: "number \<Rightarrow> number \<Rightarrow> number" where
  "num_div x y = fl (x / y)"

definition num_mul :: "number \<Rightarrow> number \<Rightarrow> number" where
  "num_mul x y = fl (x * y)"

text \<open>
  \<open>Math.round\<close> returns the integer closest to its argument, the larger one at a tie; the
  result is exact.
\<close>

definition Math_round :: "number \<Rightarrow> int" where
  "Math_round x = \<lfloor>x + 1 / 2\<rfloor>"

section \<open>Test session (script.js, lines 12-21 and 196-453)\<close>

subsection \<open>State\<close>

text \<open>
  The global variables of script.js and the parts of the page they drive. \<open>intervalId\<close>
  records which callback the running interval calls: \<open>updateTimer\<close> in the timed modes,
  the elapsed-time display in story mode, nothing once \<open>clearInterval\<close> has run.
  \<open>quotesReadyPromise\<close> tells whether the variable holds a promise or still \<open>null\<close>.
  \<open>resultDisplay\<close> holds the three numbers \<open>endTest\<close> writes to the page. \<open>fetchCount\<close>
  counts the calls of \<open>fetch(API_URL)\<close>. The rendering of the quote (spans, CSS classes,
  scrolling) has no effect on any of these and is left out.
\<close>

datatype timer = NoTimer | UpdateTimer | StoryClock

record result =
  wpm :: int
  accuracy :: int
  errors_shown :: nat

record state =
  currentQuote :: js_string
  timeLeft :: int
  intervalId :: timer
  startTime :: int
  charIndex :: nat
  errors :: nat
  isTestActive :: bool
  selectedMode :: string
  selectedTimer :: int
  cachedQuotes :: "js_string list"
  quotesReadyPromise :: bool
  textInput_value :: js_string
  textInput_disabled :: bool
  resultDisplay :: "result option"
  fetchCount :: nat

subsection \<open>The two comparison loops\<close>

text \<open>
  \<^verbatim>\<open>for (let i = 0; i < typedText.length; i++)
       if (i < currentQuote.length && typedText[i] !== currentQuote[i]) errors++;\<close>
  (handleInput, lines 300-305) and the same loop with \<open>===\<close> and \<open>correctChars\<close>
  (endTest, lines 385-391). The arguments are the loop index and the counter.
\<close>

function errors_loop :: "js_string \<Rightarrow> js_string \<Rightarrow> nat \<Rightarrow> nat \<Rightarrow> nat" where
  "errors_loop typedText quote i errs =
     (if i < length typedText
      then errors_loop typedText quote (i + 1)
             (if i < length quote \<and> typedText ! i \<noteq> quote ! i then errs + 1 else errs)
      else errs)"
  by pat_completeness auto
termination
  by (relation "measure (\<lambda>(typedText, quote, i, errs). length typedText - i)") auto

function correct_loop :: "js_string \<Rightarrow> js_string \<Rightarrow> nat \<Rightarrow> nat \<Rightarrow> nat" where
  "correct_loop typedText quote i correctChars =
     (if i < length typedText
      then correct_loop typedText quote (i + 1)
             (if i < length quote \<and> typedText ! i = quote ! i then correctChars + 1
              else correctChars)
      else correctChars)"
  by pat_completeness auto
termination
  by (relation "measure (\<lambda>(typedText, quote, i, c). length typedText - i)") auto

declare errors_loop.simps [simp del] correct_loop.simps [simp del]

subsection \<open>endTest\<close>

text \<open>
  \<open>now\<close> is the value of \<open>new Date().getTime()\<close> when \<open>endTest\<close> runs: an integral number
  of milliseconds, like \<open>startTime\<close>, so their difference is exact. \<open>wordsTyped\<close> is computed
  by the source and never used.
\<close>

definition endTest :: "state \<Rightarrow> int \<Rightarrow> state" where
  "endTest s now =
     (let duration = num_div (of_int (now - startTime s)) 1000;
          typedTextValue = textInput_value s;
          correctChars = correct_loop typedTextValue (currentQuote s) 0 0;
          totalTypedChars = length typedTextValue;
          timeInMinutes = num_div duration 60;
          w = (if 0 < timeInMinutes
               then Math_round (num_div (num_div (of_nat correctChars) 5) timeInMinutes)
               else 0);
          a = (if 0 < totalTypedChars
               then Math_round (num_mul (num_div (of_nat correctChars) (of_nat totalTypedChars)) 100)
               else 0)
      in s\<lparr>isTestActive := False,
            intervalId := NoTimer,
            textInput_disabled := True,
            resultDisplay := Some \<lparr>wpm = w, accuracy = a, errors_shown = errors s\<rparr>,
            textInput_value := [],
            currentQuote := []\<rparr>)"

text \<open>
  The two expressions of lines 396-406 by name: what \<open>endTest\<close> shows as a function of the
  count of correct characters and of \<open>timeInMinutes\<close>, respectively of the number of typed
  characters.
\<close>

definition shown_wpm :: "nat \<Rightarrow> number \<Rightarrow> int" where
  "shown_wpm correctChars timeInMinutes =
     (if 0 < timeInMinutes
      then Math_round (num_div (num_div (of_nat correctChars) 5) timeInMinutes)
      else 0)"

definition shown_accuracy :: "nat \<Rightarrow> nat \<Rightarrow> int" where
  "shown_accuracy correctChars totalTypedChars =
     (if 0 < totalTypedChars
      then Math_round (num_mul (num_div (of_nat correctChars) (of_nat totalTypedChars)) 100)
      else 0)"

subsection \<open>handleInput, updateTimer and the listeners\<close>

text \<open>
  \<open>handleInput\<close> runs on an \<open>input\<close> event; \<open>inputType\<close> is the event's \<open>e.inputType\<close>.
  The browser dispatches this event after it has changed the field's value, and the event
  is not cancelable: \<open>preventDefault\<close> on it undoes nothing and touches no variable of the
  script, so the first branch below leaves the state as it is.
\<close>

definition handleInput :: "state \<Rightarrow> string \<Rightarrow> int \<Rightarrow> state" where
  "handleInput s inputType now =
     (if \<not> isTestActive s then s
      else if selectedMode s = ''no-backspace'' \<and> inputType = ''deleteContentBackward'' then s
      else
        let typedText = textInput_value s;
            s1 = s\<lparr>charIndex := length typedText,
                   errors := errors_loop typedText (currentQuote s) 0 0\<rparr>
        in if selectedMode s1 \<noteq> ''story'' \<and> length (currentQuote s1) \<le> charIndex s1
           then endTest (s1\<lparr>intervalId := NoTimer\<rparr>) now
           else s1)"

definition updateTimer :: "state \<Rightarrow> int \<Rightarrow> state" where
  "updateTimer s now =
     (let s1 = s\<lparr>timeLeft := timeLeft s - 1\<rparr>
      in if timeLeft s1 \<le> 0 then endTest (s1\<lparr>intervalId := NoTimer\<rparr>) now else s1)"

text \<open>The keydown listener (lines 449-453): does it call \<open>preventDefault\<close>?\<close>

definition keydown_prevents :: "state \<Rightarrow> string \<Rightarrow> bool" where
  "keydown_prevents s key \<longleftrightarrow> selectedMode s = ''no-backspace'' \<and> key = ''Backspace''"

text \<open>The click listener of the stop button (lines 440-443).\<close>

definition stopTest :: "state \<Rightarrow> int \<Rightarrow> state" where
  "stopTest s now = endTest (s\<lparr>intervalId := NoTimer\<rparr>) now"

subsection \<open>getNewQuote and startTest\<close>

text \<open>
  \<open>Math.random()\<close> returns a Number in \<open>[0, 1)\<close>, so \<open>Math.floor(Math.random() * n)\<close> is
  one of the indices \<open>0, \<dots>, n - 1\<close>. The environment supplies each draw as a natural
  number \<open>r\<close>; the index drawn is \<open>r mod n\<close>, which ranges over exactly these indices.
\<close>

definition random_index :: "nat \<Rightarrow> nat \<Rightarrow> nat" where
  "random_index r n = r mod n"

definition fallback_no_cache :: js_string where
  "fallback_no_cache =
     str ''The quick brown fox jumps over the lazy dog. This is a fallback sentence. (No quotes cached)''"

definition getNewQuote :: "state \<Rightarrow> nat \<Rightarrow> state" where
  "getNewQuote s r =
     (if 0 < length (cachedQuotes s)
      then s\<lparr>currentQuote := cachedQuotes s ! random_index r (length (cachedQuotes s))\<rparr>
      else s\<lparr>currentQuote := fallback_no_cache\<rparr>)"

definition startTest :: "state \<Rightarrow> int \<Rightarrow> nat \<Rightarrow> state" where
  "startTest s now r =
     (let s1 = s\<lparr>isTestActive := True,
                   textInput_disabled := False,
                   textInput_value := [],
                   charIndex := 0,
                   errors := 0,
                   resultDisplay := None\<rparr>;
          s2 = getNewQuote s1 r
      in if selectedMode s2 \<noteq> ''story''
         then s2\<lparr>timeLeft := selectedTimer s2, startTime := now, intervalId := UpdateTimer\<rparr>
         else s2\<lparr>startTime := now, intervalId := StoryClock\<rparr>)"

subsection \<open>Events\<close>

text \<open>
  What the page delivers to the script while a test runs. \<open>Tick\<close>: the interval fires and
  calls the callback registered under \<open>intervalId\<close> (the story-mode callback only redraws
  the clock). \<open>Edit\<close>: the field's content changes to a new value without a keydown the
  listener could see (paste, cut, a virtual keyboard), and the \<open>input\<close> event follows.
  \<open>Key\<close>: a key is pressed whose default action is an edit of the field; the keydown
  listener runs first, and unless it prevents the default action the browser performs the
  edit and fires \<open>input\<close>. \<open>Stop\<close>: the stop
  button is clicked. A disabled field accepts no edits. Each event carries the clock
  reading at which it is handled.
\<close>

datatype event =
    Tick int
  | Edit string js_string int
  | Key string string js_string int
  | Stop int

fun step :: "state \<Rightarrow> event \<Rightarrow> state" where
  "step s (Tick now) =
     (case intervalId s of UpdateTimer \<Rightarrow> updateTimer s now | _ \<Rightarrow> s)"
| "step s (Edit inputType v now) =
     (if textInput_disabled s then s
      else handleInput (s\<lparr>textInput_value := v\<rparr>) inputType now)"
| "step s (Key key inputType v now) =
     (if textInput_disabled s \<or> keydown_prevents s key then s
      else handleInput (s\<lparr>textInput_value := v\<rparr>) inputType now)"
| "step s (Stop now) = stopTest s now"

fun run :: "state \<Rightarrow> event list \<Rightarrow> state" where
  "run s [] = s"
| "run s (e # es) = run (step s e) es"

section \<open>Passage supplier (script.js, lines 23-148)\<close>

subsection \<open>Text cleaning (lines 73-97)\<close>

definition LF :: code_unit where "LF = 0x0A"
definition CR :: code_unit where "CR = 0x0D"
definition SP :: code_unit where "SP = 0x20"

text \<open>The class \<open>\s\<close> of a JavaScript regular expression, also what \<open>trim\<close> strips.\<close>

definition isWhiteSpace :: "code_unit \<Rightarrow> bool" where
  "isWhiteSpace c \<longleftrightarrow>
     c = 0x09 \<or> c = 0x0A \<or> c = 0x0B \<or> c = 0x0C \<or> c = 0x0D \<or> c = 0x20 \<or> c = 0xA0 \<or>
     c = 0x1680 \<or> (0x2000 \<le> c \<and> c \<le> 0x200A) \<or> c = 0x2028 \<or> c = 0x2029 \<or>
     c = 0x202F \<or> c = 0x205F \<or> c = 0x3000 \<or> c = 0xFEFF"

text \<open>\<open>[.?!,]\<close>, \<open>[a-z]\<close>, \<open>[A-Z]\<close> and \<open>[a-zA-Z]\<close>.\<close>

definition isPunct :: "code_unit \<Rightarrow> bool" where
  "isPunct c \<longleftrightarrow> c = 0x2E \<or> c = 0x3F \<or> c = 0x21 \<or> c = 0x2C"

definition isLower :: "code_unit \<Rightarrow> bool" where
  "isLower c \<longleftrightarrow> 0x61 \<le> c \<and> c \<le> 0x7A"

definition isUpper :: "code_unit \<Rightarrow> bool" where
  "isUpper c \<longleftrightarrow> 0x41 \<le> c \<and> c \<le> 0x5A"

definition isLetter :: "code_unit \<Rightarrow> bool" where
  "isLetter c \<longleftrightarrow> isLower c \<or> isUpper c"

text \<open>
  A global \<open>replace\<close> scans from the left and resumes after each match.
  Step 1, \<open>replace(/(\r\n|\n|\r)/gm, " ")\<close>: the alternative \<open>\r\n\<close> is tried first.
\<close>

fun replace_newlines :: "js_string \<Rightarrow> js_string" where
  "replace_newlines [] = []"
| "replace_newlines [c] = (if c = LF \<or> c = CR then [SP] else [c])"
| "replace_newlines (c # d # cs) =
     (if c = CR \<and> d = LF then SP # replace_newlines cs
      else if c = LF \<or> c = CR then SP # replace_newlines (d # cs)
      else c # replace_newlines (d # cs))"

text \<open>Step 2, \<open>replace(/([.?!,])([a-zA-Z])/g, '$1 $2')\<close>.\<close>

fun space_after_punct :: "js_string \<Rightarrow> js_string" where
  "space_after_punct [] = []"
| "space_after_punct [c] = [c]"
| "space_after_punct (c # d # cs) =
     (if isPunct c \<and> isLetter d then c # SP # d # space_after_punct cs
      else c # space_after_punct (d # cs))"

text \<open>Step 3, \<open>replace(/([a-z])([A-Z])/g, '$1 $2')\<close>.\<close>

fun space_camel :: "js_string \<Rightarrow> js_string" where
  "space_camel [] = []"
| "space_camel [c] = [c]"
| "space_camel (c # d # cs) =
     (if isLower c \<and> isUpper d then c # SP # d # space_camel cs
      else c # space_camel (d # cs))"

text \<open>Step 4, \<open>replace(/\s+/g, " ")\<close>: each maximal run of white space becomes one space.\<close>

function collapse_spaces :: "js_string \<Rightarrow> js_string" where
  "collapse_spaces [] = []"
| "collapse_spaces (c # cs) =
     (if isWhiteSpace c then SP # collapse_spaces (dropWhile isWhiteSpace cs)
      else c # collapse_spaces cs)"
  by pat_completeness auto
termination
  by (relation "measure length") (auto simp: less_Suc_eq_le length_dropWhile_le)

text \<open>Step 5, \<open>trim()\<close>.\<close>

definition trim :: "js_string \<Rightarrow> js_string" where
  "trim t = rev (dropWhile isWhiteSpace (rev (dropWhile isWhiteSpace t)))"

definition cleanText :: "js_string \<Rightarrow> js_string" where
  "cleanText textContent =
     trim (collapse_spaces (space_camel (space_after_punct (replace_newlines textContent))))"

subsection \<open>What the network returns\<close>

text \<open>
  A field read where a string is expected: missing (\<open>undefined\<close>, \<open>null\<close>), a string, or a
  truthy value that is not a string (calling \<open>replace\<close> on it throws).
\<close>

datatype jtext = Missing | Str js_string | NonString

text \<open>
  \<open>detailsData.description\<close>: absent or falsy, a string, or another value whose \<open>value\<close>
  field is read. \<open>excerpts\<close> lists the \<open>text\<close> field of each excerpt.
\<close>

datatype description = NoDescription | DescriptionString js_string | DescriptionObject jtext

record details =
  description :: description
  excerpts :: "jtext list"

text \<open>
  The outcome of the detail request for one document: \<open>DetailFails\<close> stands for anything
  that throws inside the \<open>try\<close> block of lines 57-98 before the text is read (the request is
  rejected, the status is not ok, the body is not JSON, the body has an unexpected shape).
\<close>

datatype detail_response = DetailFails | DetailOk details

record doc =
  key :: "js_string option"
  detail :: detail_response

text \<open>
  The outcome of \<open>fetch(API_URL)\<close> and \<open>response.json()\<close>: \<open>BatchFails\<close> when either
  throws or \<open>data.docs\<close> cannot be read or mapped; otherwise the value of \<open>data.docs\<close>,
  \<open>None\<close> when it is missing.
\<close>

datatype batch_response = BatchFails | BatchOk "doc list option"

text \<open>
  Lines 49-51 in more detail. \<open>fetch(API_URL)\<close> is rejected (a network error) or resolves
  with a response; \<open>response.json()\<close> throws on a body that is not JSON, and so does reading
  or mapping \<open>docs\<close> of a body of another shape (\<open>Unreadable\<close>); otherwise the body yields
  \<open>data.docs\<close>. The response's \<open>ok\<close> flag (the HTTP status) is carried along; these lines
  never read it.
\<close>

datatype body = Unreadable | Parsed "doc list option"

datatype fetch_outcome = Rejected | Response bool body

fun batch_of :: "fetch_outcome \<Rightarrow> batch_response" where
  "batch_of Rejected = BatchFails"
| "batch_of (Response ok Unreadable) = BatchFails"
| "batch_of (Response ok (Parsed docs)) = BatchOk docs"

subsection \<open>One candidate (the callback of \<open>docs.map\<close>, lines 55-105)\<close>

definition textContent_of :: "details \<Rightarrow> jtext" where
  "textContent_of d =
     (let from_excerpts = (case excerpts d of [] \<Rightarrow> Str [] | x # _ \<Rightarrow> x)
      in case description d of
           DescriptionString t \<Rightarrow> if t \<noteq> [] then Str t else from_excerpts
         | DescriptionObject v \<Rightarrow> v
         | NoDescription \<Rightarrow> from_excerpts)"

definition candidate :: "doc \<Rightarrow> js_string option" where
  "candidate d =
     (case key d of
        None \<Rightarrow> None
      | Some k \<Rightarrow>
          if k = [] then None
          else (case detail d of
                  DetailFails \<Rightarrow> None
                | DetailOk dd \<Rightarrow>
                    (case textContent_of dd of
                       Missing \<Rightarrow> None
                     | NonString \<Rightarrow> None
                     | Str textContent \<Rightarrow>
                         if textContent = [] then None
                         else let cleanedText = cleanText textContent
                              in if 100 < length cleanedText then Some cleanedText else None)))"

subsection \<open>shuffleArray (lines 137-148)\<close>

text \<open>
  \<open>rand k\<close> is the draw made in the iteration that starts with \<open>currentIndex = k\<close>. The
  destructuring assignment reads both elements, then writes \<open>array[currentIndex]\<close>, then
  \<open>array[randomIndex]\<close>.
\<close>

function shuffle_loop :: "(nat \<Rightarrow> nat) \<Rightarrow> 'a list \<Rightarrow> nat \<Rightarrow> 'a list" where
  "shuffle_loop rand array currentIndex =
     (if currentIndex \<noteq> 0
      then let randomIndex = random_index (rand currentIndex) currentIndex;
               currentIndex' = currentIndex - 1
           in shuffle_loop rand
                (array[currentIndex' := array ! randomIndex, randomIndex := array ! currentIndex'])
                currentIndex'
      else array)"
  by pat_completeness auto
termination
  by (relation "measure (\<lambda>(rand, array, currentIndex). currentIndex)") auto

declare shuffle_loop.simps [simp del]

definition shuffleArray :: "(nat \<Rightarrow> nat) \<Rightarrow> 'a list \<Rightarrow> 'a list" where
  "shuffleArray rand array = shuffle_loop rand array (length array)"

subsection \<open>fetchAndCacheQuotes (lines 39-134)\<close>

definition MAX_CACHED_QUOTES :: nat where
  "MAX_CACHED_QUOTES = 20"

definition fallback_no_suitable :: js_string where
  "fallback_no_suitable =
     str ''The quick brown fox jumps over the lazy dog. This is a default sentence if API fails to provide suitable descriptions. It should have spaces now!''"

definition fallback_no_docs :: js_string where
  "fallback_no_docs =
     str ''The quick brown fox jumps over the lazy dog. This is a default sentence because the API returned no works. It should have spaces now!''"

definition fallback_error :: js_string where
  "fallback_error =
     str ''The quick brown fox jumps over the lazy dog. This is a default sentence due to an error fetching from the API. It should have spaces now!''"

text \<open>
  \<open>Promise.allSettled\<close> keeps the order of the documents; \<open>potentialQuotes\<close> collects the
  results that are not \<open>null\<close>.
\<close>

definition potentialQuotes_of :: "doc list \<Rightarrow> js_string list" where
  "potentialQuotes_of docs = List.map_filter candidate docs"

definition fetchAndCacheQuotes :: "state \<Rightarrow> batch_response \<Rightarrow> (nat \<Rightarrow> nat) \<Rightarrow> state" where
  "fetchAndCacheQuotes s batch rand =
     (if 0 < length (cachedQuotes s) then s
      else
        let s1 = s\<lparr>fetchCount := fetchCount s + 1\<rparr>
        in case batch of
             BatchFails \<Rightarrow> s1\<lparr>cachedQuotes := [fallback_error]\<rparr>
           | BatchOk None \<Rightarrow> s1\<lparr>cachedQuotes := [fallback_no_docs]\<rparr>
           | BatchOk (Some docs) \<Rightarrow>
               if 0 < length docs
               then let potentialQuotes = potentialQuotes_of docs
                    in if 0 < length potentialQuotes
                       then s1\<lparr>cachedQuotes :=
                                 take MAX_CACHED_QUOTES (shuffleArray rand potentialQuotes)\<rparr>
                       else s1\<lparr>cachedQuotes := [fallback_no_suitable]\<rparr>
               else s1\<lparr>cachedQuotes := [fallback_no_docs]\<rparr>)"

subsection \<open>Page load and the start button (lines 196-217, 423-437 and 459)\<close>

definition pageLoad :: "state \<Rightarrow> batch_response \<Rightarrow> (nat \<Rightarrow> nat) \<Rightarrow> state" where
  "pageLoad s batch rand = (fetchAndCacheQuotes s batch rand)\<lparr>quotesReadyPromise := True\<rparr>"

definition startCountdown :: "state \<Rightarrow> state" where
  "startCountdown s = s\<lparr>textInput_value := [], textInput_disabled := True\<rparr>"

text \<open>
  The click listener up to the start of the countdown; \<open>level\<close> and \<open>mode\<close> are the values
  of the two select boxes.
\<close>

definition startClick :: "state \<Rightarrow> string \<Rightarrow> string \<Rightarrow> batch_response \<Rightarrow> (nat \<Rightarrow> nat) \<Rightarrow> state" where
  "startClick s level mode batch rand =
     (let s1 = s\<lparr>selectedTimer := (if level = ''easy'' then 60
                                     else if level = ''medium'' then 45 else 30),
                   selectedMode := mode\<rparr>;
          s2 = (if \<not> quotesReadyPromise s1
                then (fetchAndCacheQuotes s1 batch rand)\<lparr>quotesReadyPromise := True\<rparr>
                else s1)
      in startCountdown s2)"

section \<open>The specification's quantities\<close>

text \<open>
  The quantities as the specification words them, for comparison with what the code computes.
\<close>

definition spec_correctChars :: "js_string \<Rightarrow> js_string \<Rightarrow> nat" where
  "spec_correctChars typedText passage =
     card {i. i < min (length typedText) (length passage) \<and> typedText ! i = passage ! i}"

definition spec_errorCount :: "js_string \<Rightarrow> js_string \<Rightarrow> nat" where
  "spec_errorCount P Q = card {i. i < min (length P) (length Q) \<and> P ! i \<noteq> Q ! i}"

text \<open>
  The two scores as the specification computes them (section 8 evaluates
  \<open>round((12/5)/(12/60))\<close> as \<open>round(2.4 * 5) = 12\<close>): exact quotients, rounded to the nearest
  integer. \<open>durationSeconds\<close> is the elapsed time in seconds, milliseconds divided by 1000.
\<close>

definition spec_wpm :: "nat \<Rightarrow> rat \<Rightarrow> int" where
  "spec_wpm correctChars durationSeconds =
     (if 0 < durationSeconds
      then round ((of_nat correctChars / 5) / (durationSeconds / 60))
      else 0)"

definition spec_accuracy :: "nat \<Rightarrow> nat \<Rightarrow> int" where
  "spec_accuracy correctChars totalTypedChars =
     (if 0 < totalTypedChars
      then round (of_nat correctChars / of_nat totalTypedChars * (100 :: rat))
      else 0)"

section \<open>Invariants\<close>

text \<open>What holds throughout a story-mode test.\<close>

definition story_inv :: "state \<Rightarrow> bool" where
  "story_inv s \<longleftrightarrow> isTestActive s \<and> selectedMode s = ''story'' \<and> intervalId s = StoryClock"

text \<open>
  What the specification asks of a cached passage: more than 100 code units, no line feed
  or carriage return, and no two spaces in a row.
\<close>

definition well_cleaned :: "js_string \<Rightarrow> bool" where
  "well_cleaned q \<longleftrightarrow>
     100 < length q \<and> LF \<notin> set q \<and> CR \<notin> set q
     \<and> successively (\<lambda>a b. \<not> (a = SP \<and> b = SP)) q"

section \<open>Concrete inputs\<close>

definition session_example :: state where
  "session_example =
     \<lparr>currentQuote = str ''Hello world'', timeLeft = 48, intervalId = UpdateTimer,
      startTime = 1000, charIndex = 11, errors = 1, isTestActive = True,
      selectedMode = ''normal'', selectedTimer = 60, cachedQuotes = [],
      quotesReadyPromise = True, textInput_value = str ''Hxllo world'',
      textInput_disabled = False, resultDisplay = None, fetchCount = 1\<rparr>"

text \<open>
  A page whose cache holds one passage, before a test; the states reached from it by
  starting a test and typing.
\<close>

definition idle_example :: state where
  "idle_example =
     \<lparr>currentQuote = [], timeLeft = 0, intervalId = NoTimer, startTime = 0, charIndex = 0,
      errors = 0, isTestActive = False, selectedMode = ''no-backspace'', selectedTimer = 60,
      cachedQuotes = [str ''abcdef''], quotesReadyPromise = True, textInput_value = [],
      textInput_disabled = True, resultDisplay = None, fetchCount = 1\<rparr>"

definition typed_x_example :: state where
  "typed_x_example = run (startTest idle_example 5000 0) [Edit ''insertText'' (str ''x'') 5400]"

definition typed_abc_example :: state where
  "typed_abc_example =
     run (startTest idle_example 5000 0)
       [Edit ''insertText'' (str ''a'') 5400, Edit ''insertText'' (str ''ab'') 5600,
        Edit ''insertText'' (str ''abc'') 5800]"

definition story_idle_example :: state where
  "story_idle_example = idle_example\<lparr>selectedMode := ''story''\<rparr>"

definition story_typed_example :: state where
  "story_typed_example =
     run (startTest story_idle_example 5000 0) [Edit ''insertText'' (str ''abcdef'') 9000]"

text \<open>A freshly loaded page: nothing cached, nothing fetched.\<close>

definition fresh_example :: state where
  "fresh_example =
     \<lparr>currentQuote = [], timeLeft = 0, intervalId = NoTimer, startTime = 0, charIndex = 0,
      errors = 0, isTestActive = False, selectedMode = ''normal'', selectedTimer = 60,
      cachedQuotes = [], quotesReadyPromise = False, textInput_value = [],
      textInput_disabled = False, resultDisplay = None, fetchCount = 0\<rparr>"

definition rand_example :: "nat \<Rightarrow> nat" where
  "rand_example k = 3 * k"

text \<open>
  Documents as the network may return them: a description with a line break, a missing
  space after a comma and a glued name; an excerpt with missing spaces and padding; a
  document without key; a failed detail request; a description that is too short.
\<close>

definition harbour_raw :: js_string where
  "harbour_raw =
     str ''The harbour was quiet at dawn,and the boats lay still.\<newline>\<newline>OldMarta counted the nets twice before she let anyone near the water that morning.''"

definition harbour_clean :: js_string where
  "harbour_clean =
     str ''The harbour was quiet at dawn, and the boats lay still. Old Marta counted the nets twice before she let anyone near the water that morning.''"

definition bridge_raw :: js_string where
  "bridge_raw =
     str ''  Nobody in the village remembered who had built the bridge.It had always been there,grey and narrow,older than the church.  ''"

definition bridge_clean :: js_string where
  "bridge_clean =
     str ''Nobody in the village remembered who had built the bridge. It had always been there, grey and narrow, older than the church.''"

definition harbour_doc :: doc where
  "harbour_doc =
     \<lparr>key = Some (str ''/works/OL1W''),
      detail = DetailOk \<lparr>description = DescriptionString harbour_raw, excerpts = []\<rparr>\<rparr>"

definition bridge_doc :: doc where
  "bridge_doc =
     \<lparr>key = Some (str ''/works/OL2W''),
      detail = DetailOk \<lparr>description = NoDescription, excerpts = [Str bridge_raw]\<rparr>\<rparr>"

definition keyless_doc :: doc where
  "keyless_doc =
     \<lparr>key = None,
      detail = DetailOk \<lparr>description = DescriptionString harbour_raw, excerpts = []\<rparr>\<rparr>"

definition failing_doc :: doc where
  "failing_doc = \<lparr>key = Some (str ''/works/OL3W''), detail = DetailFails\<rparr>"

definition short_doc :: doc where
  "short_doc =
     \<lparr>key = Some (str ''/works/OL4W''),
      detail = DetailOk \<lparr>description = DescriptionObject (Str (str ''A short note.'')),
                         excerpts = []\<rparr>\<rparr>"

definition docs_example :: "doc list" where
  "docs_example = [harbour_doc, keyless_doc, failing_doc, bridge_doc, short_doc]"

text \<open>
  A page whose only fetch was rejected, so that the cache holds the fallback sentence of
  that case; a timed test started on it; 40 characters typed of which the first 23 are
  right; and the whole sentence typed without error.
\<close>

definition failed_load_example :: state where
  "failed_load_example = pageLoad fresh_example (batch_of Rejected) rand_example"

definition running_fallback_example :: state where
  "running_fallback_example =
     startTest (startClick failed_load_example ''easy'' ''normal'' BatchFails rand_example)
       100000 0"

definition tie_typed :: js_string where
  "tie_typed = str ''The quick brown fox jumxxxxxxxxxxxxxxxxx''"

definition tie_typed_example :: state where
  "tie_typed_example = run running_fallback_example [Edit ''insertText'' tie_typed 120000]"

definition all_typed_example :: state where
  "all_typed_example = run running_fallback_example [Edit ''insertText'' fallback_error 124000]"

section \<open>Properties of the rounding\<close>

lemma rne_ge: "of_int n \<le> m \<Longrightarrow> n \<le> rne m"
proof -
  assume "of_int n \<le> m"
  then have "n \<le> \<lfloor>m\<rfloor>" by (simp add: le_floor_iff)
  then show ?thesis unfolding rne_def Let_def by auto
qed

lemma rne_le: "m \<le> of_int n \<Longrightarrow> rne m \<le> n"
proof -
  assume a: "m \<le> of_int n"
  have f: "\<lfloor>m\<rfloor> \<le> n" using a by (simp add: floor_le_iff)
  show ?thesis
  proof (cases "\<lfloor>m\<rfloor> = n")
    case True
    then have "m = of_int n" using a by linarith
    then show ?thesis by (simp add: rne_def)
  next
    case False
    then have "\<lfloor>m\<rfloor> + 1 \<le> n" using f by simp
    then show ?thesis unfolding rne_def Let_def by auto
  qed
qed

lemma ilog2_bounds:
  assumes "0 < x"
  shows "power_int 2 (ilog2 x) \<le> x \<and> x < power_int 2 (ilog2 x + 1)"
proof (cases "1 \<le> x")
  case True
  define n where "n = nat \<lfloor>x\<rfloor>"
  have n1: "0 < n" using True by (simp add: n_def)
  define k where "k = floorlog 2 n"
  have b: "2 ^ (k - 1) \<le> n \<and> n < 2 ^ k" unfolding k_def using floorlog_bounds[of n 2] n1 by simp
  have k1: "0 < k" using b n1 by (cases k) auto
  have e: "ilog2 x = int k - 1" using True by (simp add: ilog2_def n_def k_def)
  have e': "ilog2 x = int (k - 1)" using e k1 by simp
  have nx: "rat_of_nat n \<le> x" using True by (simp add: n_def)
  have xn: "x < rat_of_nat n + 1" using True by (simp add: n_def) linarith
  have "(2::rat) ^ (k - 1) \<le> rat_of_nat n" using b by (metis of_nat_le_iff of_nat_numeral of_nat_power)
  then have "(2::rat) ^ (k - 1) \<le> x" using nx by (rule order_trans)
  then have l: "power_int 2 (ilog2 x) \<le> x" by (simp add: e')
  have "n + 1 \<le> 2 ^ k" using b by simp
  then have "rat_of_nat (n + 1) \<le> 2 ^ k" by (metis of_nat_le_iff of_nat_numeral of_nat_power)
  then have "x < (2::rat) ^ k" using xn by simp
  then have u: "x < power_int 2 (ilog2 x + 1)" by (simp add: e)
  show ?thesis using l u by simp
next
  case False
  then have x1: "x < 1" by simp
  define y where "y = 1 / x"
  have y1: "1 < y" using assms x1 by (simp add: y_def)
  define c where "c = \<lceil>y\<rceil>"
  have c2: "2 \<le> c" using y1 unfolding c_def by linarith
  define n where "n = nat (c - 1)"
  have n1: "0 < n" using c2 by (simp add: n_def)
  define j where "j = floorlog 2 n"
  have b: "2 ^ (j - 1) \<le> n \<and> n < 2 ^ j" unfolding j_def using floorlog_bounds[of n 2] n1 by simp
  have e: "ilog2 x = - int j" using False by (simp add: ilog2_def n_def j_def c_def y_def)
  have j1: "0 < j" using b n1 by (cases j) auto
  have cn: "c = int n + 1" using c2 by (simp add: n_def)
  have yc: "y \<le> of_int c" unfolding c_def by simp
  have cy: "of_int c - 1 < y" unfolding c_def by linarith
  have "n + 1 \<le> 2 ^ j" using b by simp
  then have "rat_of_nat (n + 1) \<le> 2 ^ j" by (metis of_nat_le_iff of_nat_numeral of_nat_power)
  then have "y \<le> 2 ^ j" using yc cn by simp
  then have l: "1 / 2 ^ j \<le> x" using assms unfolding y_def by (simp add: field_simps)
  have ny: "rat_of_nat n < y" using cy cn by simp
  have "(2::rat) ^ (j - 1) \<le> rat_of_nat n" using b by (metis of_nat_le_iff of_nat_numeral of_nat_power)
  then have "2 ^ (j - 1) < y" using ny by (rule order_le_less_trans)
  then have u: "x < 1 / 2 ^ (j - 1)" using assms unfolding y_def by (simp add: field_simps)
  have p1: "power_int (2::rat) (- int j) = 1 / 2 ^ j" by (simp add: power_int_minus field_simps)
  have eq: "- int j + 1 = - int (j - 1)" using j1 by simp
  have p2: "power_int (2::rat) (- int j + 1) = 1 / 2 ^ (j - 1)"
    unfolding eq power_int_minus by (simp add: field_simps)
  show ?thesis unfolding e p1 p2 using l u by (rule conjI)
qed


lemma rne_mono: "a \<le> b \<Longrightarrow> rne a \<le> rne b"
proof -
  assume ab: "a \<le> b"
  have fab: "\<lfloor>a\<rfloor> \<le> \<lfloor>b\<rfloor>" using ab by (rule floor_mono)
  show ?thesis
  proof (cases "\<lfloor>a\<rfloor> = \<lfloor>b\<rfloor>")
    case True
    then show ?thesis using ab unfolding rne_def Let_def by auto
  next
    case False
    then have "\<lfloor>a\<rfloor> + 1 \<le> \<lfloor>b\<rfloor>" using fab by simp
    moreover have "rne a \<le> \<lfloor>a\<rfloor> + 1" unfolding rne_def Let_def by auto
    moreover have "\<lfloor>b\<rfloor> \<le> rne b" unfolding rne_def Let_def by auto
    ultimately show ?thesis by linarith
  qed
qed

lemma pow2_pos: "0 < power_int (2::rat) e"
  by (simp add: power_int_def)

lemma ilog2_mono:
  assumes "0 < x" "x \<le> y"
  shows "ilog2 x \<le> ilog2 y"
proof (rule ccontr)
  assume "\<not> ilog2 x \<le> ilog2 y"
  then have "ilog2 y + 1 \<le> ilog2 x" by simp
  then have "power_int (2::rat) (ilog2 y + 1) \<le> power_int 2 (ilog2 x)"
    by (intro power_int_increasing) auto
  moreover have "y < power_int 2 (ilog2 y + 1)" using ilog2_bounds[of y] assms by simp
  moreover have "power_int 2 (ilog2 x) \<le> x" using ilog2_bounds[of x] assms by simp
  ultimately show False using assms by linarith
qed

text \<open>The scaled significand lies between \<open>2^52\<close> and \<open>2^53\<close>.\<close>

lemma scaled_bounds:
  assumes "0 < a"
  shows "2 ^ 52 \<le> a / power_int 2 (ilog2 a - 52) \<and> a / power_int 2 (ilog2 a - 52) < 2 ^ 53"
proof -
  have p: "power_int (2::rat) (ilog2 a - 52) = power_int 2 (ilog2 a) / 2 ^ 52"
    by (simp add: power_int_diff)
  have q: "power_int (2::rat) (ilog2 a + 1) = power_int 2 (ilog2 a) * 2"
    by (simp add: power_int_add)
  have pos: "0 < power_int (2::rat) (ilog2 a)" by (rule pow2_pos)
  have b: "power_int 2 (ilog2 a) \<le> a \<and> a < power_int 2 (ilog2 a) * 2"
    using ilog2_bounds[OF assms] q by simp
  show ?thesis unfolding p using b pos by (simp add: field_simps)
qed

lemma fl_pos_bounds:
  assumes "0 < x"
  shows "power_int 2 (ilog2 x) \<le> fl x \<and> fl x \<le> power_int 2 (ilog2 x + 1)"
proof -
  define e where "e = ilog2 x - 52"
  define m where "m = x / power_int 2 e"
  have pe: "0 < power_int (2::rat) e" by (rule pow2_pos)
  have f: "fl x = of_int (rne m) * power_int 2 e"
    using assms by (simp add: fl_def Let_def e_def m_def)
  have mb: "2 ^ 52 \<le> m \<and> m < 2 ^ 53" unfolding m_def e_def using scaled_bounds[OF assms] .
  have "of_int (2 ^ 52) \<le> m" using mb by simp
  then have lo: "2 ^ 52 \<le> rne m" by (rule rne_ge)
  have "m \<le> of_int (2 ^ 53)" using mb by simp
  then have hi: "rne m \<le> 2 ^ 53" by (rule rne_le)
  have lo': "(2::rat) ^ 52 \<le> of_int (rne m)" using lo by (metis of_int_le_iff of_int_numeral of_int_power)
  have hi': "of_int (rne m) \<le> (2::rat) ^ 53" using hi by (metis of_int_le_iff of_int_numeral of_int_power)
  have p1: "power_int (2::rat) (ilog2 x) = 2 ^ 52 * power_int 2 e"
    unfolding e_def by (simp add: power_int_diff)
  have p2: "power_int (2::rat) (ilog2 x + 1) = 2 ^ 53 * power_int 2 e"
    unfolding e_def by (simp add: power_int_diff power_int_add)
  show ?thesis unfolding p1 p2 f using lo' hi' pe by (simp add: mult_right_mono)
qed

lemma fl_mono_pos:
  assumes "0 < x" "x \<le> y"
  shows "fl x \<le> fl y"
proof (cases "ilog2 x = ilog2 y")
  case True
  define e where "e = ilog2 y - 52"
  have pe: "0 < power_int (2::rat) e" by (rule pow2_pos)
  have y: "0 < y" using assms by simp
  have fx: "fl x = of_int (rne (x / power_int 2 e)) * power_int 2 e"
    using assms True by (simp add: fl_def Let_def e_def)
  have fy: "fl y = of_int (rne (y / power_int 2 e)) * power_int 2 e"
    using y by (simp add: fl_def Let_def e_def)
  have "x / power_int 2 e \<le> y / power_int 2 e" using assms pe by (simp add: divide_right_mono)
  then have "rne (x / power_int 2 e) \<le> rne (y / power_int 2 e)" by (rule rne_mono)
  then show ?thesis unfolding fx fy using pe by (simp add: mult_right_mono)
next
  case False
  have y: "0 < y" using assms by simp
  have "ilog2 x \<le> ilog2 y" using assms by (rule ilog2_mono)
  then have "ilog2 x + 1 \<le> ilog2 y" using False by simp
  then have "power_int (2::rat) (ilog2 x + 1) \<le> power_int 2 (ilog2 y)"
    by (intro power_int_increasing) auto
  moreover have "fl x \<le> power_int 2 (ilog2 x + 1)" using fl_pos_bounds[OF assms(1)] by simp
  moreover have "power_int 2 (ilog2 y) \<le> fl y" using fl_pos_bounds[OF y] by simp
  ultimately show ?thesis by linarith
qed

lemma fl_pos: "0 < x \<Longrightarrow> 0 < fl x"
  using fl_pos_bounds[of x] pow2_pos[of "ilog2 x"] by linarith

lemma fl_zero: "fl 0 = 0"
  by (simp add: fl_def)

lemma fl_minus: "fl (- x) = - fl x"
  by (simp add: fl_def Let_def)

lemma fl_neg: "x < 0 \<Longrightarrow> fl x < 0"
  using fl_pos[of "- x"] by (simp add: fl_minus)

lemma fl_pos_iff: "0 < fl x \<longleftrightarrow> 0 < x"
  using fl_pos[of x] fl_neg[of x] fl_zero by (cases "x = 0"; cases "0 < x") (auto simp: not_less)

lemma fl_nonneg: "0 \<le> x \<Longrightarrow> 0 \<le> fl x"
  using fl_pos[of x] fl_zero by (cases "x = 0") auto

lemma fl_mono_nonneg: "0 \<le> x \<Longrightarrow> x \<le> y \<Longrightarrow> fl x \<le> fl y"
  using fl_mono_pos[of x y] fl_nonneg[of y] fl_zero by (cases "x = 0") auto

lemma fl_1: "fl 1 = 1"
  by code_simp

lemma fl_100: "fl 100 = 100"
  by code_simp

text \<open>
  Two values for comparison with an IEEE 754 implementation: the Number written \<open>0.1\<close>,
  and a tie, where the rounding of the quotient shows: 23 correct characters of 40 typed
  are 57.5 percent exactly, the product computed in Numbers lies just below, and
  \<open>Math.round\<close> gives 57. Seven correct characters in 56 seconds likewise give 1.
\<close>

lemma fl_one_tenth: "fl (1 / 10) = 3602879701896397 / 36028797018963968"
  by code_simp

lemma tie_accuracy_example:
  "Math_round (num_mul (num_div 23 40) 100) = 57 \<and> \<lfloor>(23 / 40 * 100 + 1 / 2 :: rat)\<rfloor> = 58"
  by code_simp

lemma tie_wpm_example:
  "Math_round (num_div (num_div 7 5) (num_div (num_div 56000 1000) 60)) = 1
   \<and> \<lfloor>((7 / 5) / ((56000 / 1000) / 60) + 1 / 2 :: rat)\<rfloor> = 2"
  by code_simp

section \<open>The comparison loops count positions\<close>

lemma card_from_step:
  assumes "i < n"
  shows "card {j. i \<le> j \<and> j < n \<and> P j} = (if P i then 1 else 0) + card {j. Suc i \<le> j \<and> j < n \<and> P j}"
proof -
  have fin: "finite {j. Suc i \<le> j \<and> j < n \<and> P j}" by simp
  have notin: "i \<notin> {j. Suc i \<le> j \<and> j < n \<and> P j}" by simp
  show ?thesis
  proof (cases "P i")
    case True
    then have "{j. i \<le> j \<and> j < n \<and> P j} = insert i {j. Suc i \<le> j \<and> j < n \<and> P j}"
      using assms by (auto simp: Suc_le_eq le_less)
    then show ?thesis using True fin notin by simp
  next
    case False
    then have "{j. i \<le> j \<and> j < n \<and> P j} = {j. Suc i \<le> j \<and> j < n \<and> P j}"
      using assms by (auto simp: Suc_le_eq le_less)
    then show ?thesis using False by simp
  qed
qed

lemma card_from_empty: "n \<le> (i::nat) \<Longrightarrow> card {j. i \<le> j \<and> j < n \<and> P j} = (0::nat)"
proof -
  assume "n \<le> i"
  then have "\<And>j. \<not> (i \<le> j \<and> j < n)" by linarith
  then have "{j. i \<le> j \<and> j < n \<and> P j} = {}" by blast
  then show ?thesis by simp
qed

lemma correct_loop_card:
  "correct_loop t q i c = c + card {j. i \<le> j \<and> j < length t \<and> (j < length q \<and> t ! j = q ! j)}"
proof (induction t q i c rule: correct_loop.induct)
  case (1 t q i c)
  show ?case
  proof (cases "i < length t")
    case True
    have "correct_loop t q i c =
            correct_loop t q (i + 1) (if i < length q \<and> t ! i = q ! i then c + 1 else c)"
      using True by (subst correct_loop.simps) (simp only: if_True)
    also have "\<dots> = (if i < length q \<and> t ! i = q ! i then c + 1 else c)
                 + card {j. i + 1 \<le> j \<and> j < length t \<and> (j < length q \<and> t ! j = q ! j)}"
      by (rule "1.IH"[OF True])
    also have "\<dots> = c + card {j. i \<le> j \<and> j < length t \<and> (j < length q \<and> t ! j = q ! j)}"
      using card_from_step[OF True, of "\<lambda>j. j < length q \<and> t ! j = q ! j"] by simp
    finally show ?thesis .
  next
    case False
    have "correct_loop t q i c = c"
      using False by (subst correct_loop.simps) (simp only: if_False)
    then show ?thesis using False by (simp add: card_from_empty)
  qed
qed

lemma errors_loop_card:
  "errors_loop t q i c = c + card {j. i \<le> j \<and> j < length t \<and> (j < length q \<and> t ! j \<noteq> q ! j)}"
proof (induction t q i c rule: errors_loop.induct)
  case (1 t q i c)
  show ?case
  proof (cases "i < length t")
    case True
    have "errors_loop t q i c =
            errors_loop t q (i + 1) (if i < length q \<and> t ! i \<noteq> q ! i then c + 1 else c)"
      using True by (subst errors_loop.simps) (simp only: if_True)
    also have "\<dots> = (if i < length q \<and> t ! i \<noteq> q ! i then c + 1 else c)
                 + card {j. i + 1 \<le> j \<and> j < length t \<and> (j < length q \<and> t ! j \<noteq> q ! j)}"
      by (rule "1.IH"[OF True])
    also have "\<dots> = c + card {j. i \<le> j \<and> j < length t \<and> (j < length q \<and> t ! j \<noteq> q ! j)}"
      using card_from_step[OF True, of "\<lambda>j. j < length q \<and> t ! j \<noteq> q ! j"] by simp
    finally show ?thesis .
  next
    case False
    have "errors_loop t q i c = c"
      using False by (subst errors_loop.simps) (simp only: if_False)
    then show ?thesis using False by (simp add: card_from_empty)
  qed
qed

lemma correct_loop_spec: "correct_loop t q 0 0 = spec_correctChars t q"
proof -
  have "{j. 0 \<le> j \<and> j < length t \<and> (j < length q \<and> t ! j = q ! j)}
        = {i. i < min (length t) (length q) \<and> t ! i = q ! i}" by auto
  then show ?thesis unfolding correct_loop_card spec_correctChars_def by simp
qed

lemma errors_loop_spec: "errors_loop t q 0 0 = spec_errorCount t q"
proof -
  have "{j. 0 \<le> j \<and> j < length t \<and> (j < length q \<and> t ! j \<noteq> q ! j)}
        = {i. i < min (length t) (length q) \<and> t ! i \<noteq> q ! i}" by auto
  then show ?thesis unfolding errors_loop_card spec_errorCount_def by simp
qed

lemma num_div_pos_iff: "0 < y \<Longrightarrow> 0 < num_div x y \<longleftrightarrow> 0 < x"
  by (simp add: num_div_def fl_pos_iff zero_less_divide_iff)

lemma endTest_resultDisplay:
  "resultDisplay (endTest s now) =
     Some \<lparr>wpm = shown_wpm (spec_correctChars (textInput_value s) (currentQuote s))
                   (num_div (num_div (of_int (now - startTime s)) 1000) 60),
           accuracy = shown_accuracy (spec_correctChars (textInput_value s) (currentQuote s))
                        (length (textInput_value s)),
           errors_shown = errors s\<rparr>"
  by (simp add: endTest_def Let_def correct_loop_spec shown_wpm_def shown_accuracy_def)

lemma hxllo_correct: "correct_loop (str ''Hxllo world'') (str ''Hello world'') 0 0 = 10"
  by code_simp

lemma round_10_11: "Math_round (num_mul (num_div 10 11) 100) = 91"
  by code_simp

lemma hxllo_example:
  "length (str ''Hxllo world'') = 11" "str ''Hxllo world'' \<noteq> []"
  "Math_round (num_mul (num_div 10 11) 100) = 91"
  "Math_round (num_div (num_div 10 5) (num_div (num_div 12000 1000) 60)) = 10"
  "(0::rat) < num_div (num_div 12000 1000) 60"
  "correct_loop (str ''Hxllo world'') (str ''Hello world'') 0 0 = 10"
  by code_simp+

lemma spec_errorCount_le: "spec_errorCount P Q \<le> length P"
proof -
  have "{i. i < min (length P) (length Q) \<and> P ! i \<noteq> Q ! i} \<subseteq> {i. i < length P}" by auto
  then have "card {i. i < min (length P) (length Q) \<and> P ! i \<noteq> Q ! i} \<le> card {i. i < length P}"
    by (intro card_mono) auto
  then show ?thesis by (simp add: spec_errorCount_def)
qed

lemma spec_errorCount_take: "spec_errorCount (take (length Q) P) Q = spec_errorCount P Q"
proof -
  have "{i. i < min (length (take (length Q) P)) (length Q) \<and> take (length Q) P ! i \<noteq> Q ! i}
        = {i. i < min (length P) (length Q) \<and> P ! i \<noteq> Q ! i}" by auto
  then show ?thesis by (simp add: spec_errorCount_def)
qed

lemma spec_correctChars_le: "spec_correctChars P Q \<le> length P"
proof -
  have "{i. i < min (length P) (length Q) \<and> P ! i = Q ! i} \<subseteq> {i. i < length P}" by auto
  then have "card {i. i < min (length P) (length Q) \<and> P ! i = Q ! i} \<le> card {i. i < length P}"
    by (intro card_mono) auto
  then show ?thesis by (simp add: spec_correctChars_def)
qed

lemma spec_correctChars_take: "spec_correctChars (take (length Q) P) Q = spec_correctChars P Q"
proof -
  have "{i. i < min (length (take (length Q) P)) (length Q) \<and> take (length Q) P ! i = Q ! i}
        = {i. i < min (length P) (length Q) \<and> P ! i = Q ! i}" by auto
  then show ?thesis by (simp add: spec_correctChars_def)
qed

lemma errors_endTest: "errors (endTest s now) = errors s"
  by (simp add: endTest_def Let_def)

lemma isTestActive_endTest: "isTestActive (endTest s now) = False"
  by (simp add: endTest_def Let_def)

lemma intervalId_endTest: "intervalId (endTest s now) = NoTimer"
  by (simp add: endTest_def Let_def)

lemma handleInput_errors:
  assumes "isTestActive s"
    and "\<not> (selectedMode s = ''no-backspace'' \<and> inputType = ''deleteContentBackward'')"
  shows "errors (handleInput s inputType now) = spec_errorCount (textInput_value s) (currentQuote s)"
  using assms by (auto simp: handleInput_def Let_def errors_endTest errors_loop_spec)

section \<open>The example states, evaluated\<close>

lemma typed_x_example_eq:
  "typed_x_example =
     \<lparr>currentQuote = str ''abcdef'', timeLeft = 60, intervalId = UpdateTimer, startTime = 5000,
      charIndex = 1, errors = 1, isTestActive = True, selectedMode = ''no-backspace'',
      selectedTimer = 60, cachedQuotes = [str ''abcdef''], quotesReadyPromise = True,
      textInput_value = str ''x'', textInput_disabled = False, resultDisplay = None,
      fetchCount = 1\<rparr>"
  by (simp add: typed_x_example_def idle_example_def startTest_def getNewQuote_def
      random_index_def handleInput_def Let_def str_def errors_loop.simps)

lemma typed_abc_example_eq:
  "typed_abc_example =
     \<lparr>currentQuote = str ''abcdef'', timeLeft = 60, intervalId = UpdateTimer, startTime = 5000,
      charIndex = 3, errors = 0, isTestActive = True, selectedMode = ''no-backspace'',
      selectedTimer = 60, cachedQuotes = [str ''abcdef''], quotesReadyPromise = True,
      textInput_value = str ''abc'', textInput_disabled = False, resultDisplay = None,
      fetchCount = 1\<rparr>"
  by (simp add: typed_abc_example_def idle_example_def startTest_def getNewQuote_def
      random_index_def handleInput_def Let_def str_def errors_loop.simps)

lemma story_typed_example_eq:
  "story_typed_example =
     \<lparr>currentQuote = str ''abcdef'', timeLeft = 0, intervalId = StoryClock, startTime = 5000,
      charIndex = 6, errors = 0, isTestActive = True, selectedMode = ''story'',
      selectedTimer = 60, cachedQuotes = [str ''abcdef''], quotesReadyPromise = True,
      textInput_value = str ''abcdef'', textInput_disabled = False, resultDisplay = None,
      fetchCount = 1\<rparr>"
  by (simp add: story_typed_example_def story_idle_example_def idle_example_def startTest_def getNewQuote_def
      random_index_def handleInput_def Let_def str_def errors_loop.simps)

lemma spec_errorCount_Nil: "spec_errorCount [] Q = 0"
  by (simp add: spec_errorCount_def)

lemma running_fallback_example_eq:
  "running_fallback_example =
     \<lparr>currentQuote = fallback_error, timeLeft = 60, intervalId = UpdateTimer, startTime = 100000,
      charIndex = 0, errors = 0, isTestActive = True, selectedMode = ''normal'',
      selectedTimer = 60, cachedQuotes = [fallback_error], quotesReadyPromise = True,
      textInput_value = [], textInput_disabled = False, resultDisplay = None,
      fetchCount = 1\<rparr>"
  by (simp add: running_fallback_example_def failed_load_example_def fresh_example_def
      pageLoad_def fetchAndCacheQuotes_def startClick_def startCountdown_def startTest_def
      getNewQuote_def random_index_def Let_def)

lemma tie_typed_counts:
  "length tie_typed = 40" "length fallback_error = 137"
  "errors_loop tie_typed fallback_error 0 0 = 17"
  "correct_loop tie_typed fallback_error 0 0 = 23"
  "errors_loop fallback_error fallback_error 0 0 = 0"
  "correct_loop fallback_error fallback_error 0 0 = 137"
  by code_simp+

lemma tie_typed_example_eq:
  "tie_typed_example =
     \<lparr>currentQuote = fallback_error, timeLeft = 60, intervalId = UpdateTimer, startTime = 100000,
      charIndex = 40, errors = 17, isTestActive = True, selectedMode = ''normal'',
      selectedTimer = 60, cachedQuotes = [fallback_error], quotesReadyPromise = True,
      textInput_value = tie_typed, textInput_disabled = False, resultDisplay = None,
      fetchCount = 1\<rparr>"
  by (simp add: tie_typed_example_def running_fallback_example_eq handleInput_def Let_def
      tie_typed_counts)

lemma tie_numbers:
  "Math_round (num_mul (num_div 23 40) 100) = 57"
  "Math_round (num_div (num_div 23 5) (num_div (num_div 30000 1000) 60)) = 9"
  "Math_round (num_mul (num_div 137 137) 100) = 100"
  "Math_round (num_div (num_div 137 5) (num_div (num_div 24000 1000) 60)) = 68"
  "(0::rat) < num_div (num_div 30000 1000) 60" "(0::rat) < num_div (num_div 24000 1000) 60"
  by code_simp+

lemma spec_numbers:
  "spec_accuracy 23 40 = 58" "spec_wpm 23 30 = 9" "spec_accuracy 137 137 = 100" "spec_wpm 137 24 = 69"
  "spec_accuracy 10 11 = 91"
  by code_simp+

lemma tie_typed_nonempty: "tie_typed \<noteq> []" "fallback_error \<noteq> []"
  using tie_typed_counts(1,2) by auto

section \<open>The error count after an input event\<close>

text \<open>
  Whenever \<open>handleInput\<close> reaches its loop, the count it leaves is the number of
  mismatching positions, which are at most as many as the typed characters and never lie
  beyond the passage.
\<close>

lemma handleInput_errorCount:
  assumes "isTestActive s"
    and "\<not> (selectedMode s = ''no-backspace'' \<and> inputType = ''deleteContentBackward'')"
  shows "errors (handleInput s inputType now) = spec_errorCount (textInput_value s) (currentQuote s)
         \<and> spec_errorCount (textInput_value s) (currentQuote s)
             = spec_errorCount (take (length (currentQuote s)) (textInput_value s)) (currentQuote s)
         \<and> errors (handleInput s inputType now) \<le> length (textInput_value s)"
  using handleInput_errors[OF assms] spec_errorCount_le[of "textInput_value s" "currentQuote s"]
  by (simp add: spec_errorCount_take)

section \<open>A story-mode test stays active\<close>

lemma story_inv_startTest: "selectedMode s = ''story'' \<Longrightarrow> story_inv (startTest s now r)"
  by (simp add: story_inv_def startTest_def getNewQuote_def Let_def)

lemma story_inv_handleInput: "story_inv s \<Longrightarrow> story_inv (handleInput s inputType now)"
  by (simp add: story_inv_def handleInput_def Let_def)

lemma story_inv_value: "story_inv (s\<lparr>textInput_value := v\<rparr>) = story_inv s"
  by (simp add: story_inv_def)

lemma story_inv_step:
  assumes "story_inv s" and "\<And>t. e \<noteq> Stop t"
  shows "story_inv (step s e)"
proof (cases e)
  case (Tick now)
  then show ?thesis using assms by (simp add: story_inv_def)
next
  case (Edit inputType v now)
  then show ?thesis using assms by (simp add: story_inv_handleInput story_inv_value)
next
  case (Key k inputType v now)
  then show ?thesis using assms by (simp add: story_inv_handleInput story_inv_value)
next
  case (Stop now)
  then show ?thesis using assms by simp
qed

lemma story_inv_run:
  "story_inv s \<Longrightarrow> \<forall>e \<in> set es. \<forall>t. e \<noteq> Stop t \<Longrightarrow> story_inv (run s es)"
proof (induction es arbitrary: s)
  case Nil
  then show ?case by simp
next
  case (Cons e es)
  have "story_inv (step s e)" using Cons.prems by (intro story_inv_step) auto
  then show ?case using Cons by simp
qed

lemma stopTest_ends: "\<not> isTestActive (stopTest s now) \<and> intervalId (stopTest s now) = NoTimer"
  by (simp add: stopTest_def isTestActive_endTest intervalId_endTest)

lemma typed_abc_step:
  "handleInput (typed_abc_example\<lparr>textInput_value := str ''abcdeX''\<rparr>) ''insertText'' 9000
   = step typed_abc_example (Edit ''insertText'' (str ''abcdeX'') 9000)"
  by (simp add: typed_abc_example_eq)

section \<open>Bounds on the score\<close>

lemma Math_round_nonneg: "0 \<le> x \<Longrightarrow> 0 \<le> Math_round x"
  by (simp add: Math_round_def)

lemma Math_round_le: "x \<le> of_int n \<Longrightarrow> Math_round x \<le> n"
  unfolding Math_round_def by (simp add: floor_le_iff) 

lemma shown_accuracy_bounds:
  assumes "c \<le> t"
  shows "0 \<le> shown_accuracy c t \<and> shown_accuracy c t \<le> 100"
proof (cases "0 < t")
  case False
  then show ?thesis by (simp add: shown_accuracy_def)
next
  case True
  define q where "q = num_div (of_nat c) (of_nat t)"
  have r0: "(0::rat) \<le> of_nat c / of_nat t" by simp
  have r1: "(of_nat c :: rat) / of_nat t \<le> 1" using assms True by (simp add: divide_le_eq_1)
  have q0: "0 \<le> q" unfolding q_def num_div_def using r0 by (rule fl_nonneg)
  have "q \<le> fl 1" unfolding q_def num_div_def using r0 r1 by (rule fl_mono_nonneg)
  then have q1: "q \<le> 1" by (simp add: fl_1)
  define p where "p = num_mul q 100"
  have m0: "0 \<le> q * 100" using q0 by simp
  have m1: "q * 100 \<le> 100" using q1 by simp
  have p0: "0 \<le> p" unfolding p_def num_mul_def using m0 by (rule fl_nonneg)
  have "p \<le> fl 100" unfolding p_def num_mul_def using m0 m1 by (rule fl_mono_nonneg)
  then have p1: "p \<le> of_int 100" by (simp add: fl_100)
  have "0 \<le> Math_round p" using p0 by (rule Math_round_nonneg)
  moreover have "Math_round p \<le> 100" using p1 by (rule Math_round_le)
  ultimately show ?thesis using True by (simp add: shown_accuracy_def p_def q_def)
qed

lemma shown_wpm_nonneg: "0 \<le> shown_wpm c tm"
proof (cases "0 < tm")
  case False
  then show ?thesis by (simp add: shown_wpm_def)
next
  case True
  have a: "0 \<le> num_div (of_nat c) 5" unfolding num_div_def by (rule fl_nonneg) simp
  have "0 \<le> num_div (num_div (of_nat c) 5) tm"
    unfolding num_div_def[of "num_div (of_nat c) 5"] using a True by (intro fl_nonneg) simp
  then have "0 \<le> Math_round (num_div (num_div (of_nat c) 5) tm)"
    by (rule Math_round_nonneg)
  then show ?thesis using True by (simp add: shown_wpm_def)
qed

section \<open>The shuffle and the fetch cycle\<close>

lemma candidate_harbour: "candidate harbour_doc = Some harbour_clean"
  by code_simp

lemma candidate_bridge: "candidate bridge_doc = Some bridge_clean"
  by code_simp

lemma candidate_others:
  "candidate keyless_doc = None" "candidate failing_doc = None" "candidate short_doc = None"
  by code_simp+

lemma potentialQuotes_example: "potentialQuotes_of docs_example = [harbour_clean, bridge_clean]"
  by (simp add: potentialQuotes_of_def docs_example_def candidate_harbour candidate_bridge candidate_others)

lemma shuffle_loop_inv:
  "currentIndex \<le> length array \<Longrightarrow>
     mset (shuffle_loop rand array currentIndex) = mset array
     \<and> length (shuffle_loop rand array currentIndex) = length array"
proof (induction rand array currentIndex rule: shuffle_loop.induct)
  case (1 rand array currentIndex)
  show ?case
  proof (cases "currentIndex = 0")
    case True
    then show ?thesis by (subst (1 2) shuffle_loop.simps) simp
  next
    case False
    define randomIndex where "randomIndex = random_index (rand currentIndex) currentIndex"
    define currentIndex' where "currentIndex' = currentIndex - 1"
    define array' where
      "array' = array[currentIndex' := array ! randomIndex, randomIndex := array ! currentIndex']"
    have "randomIndex < currentIndex"
      using False by (simp add: randomIndex_def random_index_def)
    then have r: "randomIndex < length array"
      using "1.prems" by (rule less_le_trans)
    have c: "currentIndex' < length array"
      using False "1.prems" by (simp add: currentIndex'_def)
    have m: "mset array' = mset array" unfolding array'_def using r c by (rule mset_swap)
    have l: "length array' = length array" by (simp add: array'_def)
    have le: "currentIndex' \<le> length array'" using c l by simp
    have ih: "mset (shuffle_loop rand array' currentIndex') = mset array'
              \<and> length (shuffle_loop rand array' currentIndex') = length array'"
      using "1.IH"[OF False randomIndex_def currentIndex'_def] le
      unfolding array'_def by simp
    have unfold: "shuffle_loop rand array currentIndex = shuffle_loop rand array' currentIndex'"
      using False
      by (subst shuffle_loop.simps) (simp add: Let_def array'_def randomIndex_def currentIndex'_def)
    show ?thesis unfolding unfold using ih m l by simp
  qed
qed

lemma mset_shuffleArray: "mset (shuffleArray rand array) = mset array"
  by (simp add: shuffleArray_def shuffle_loop_inv)

lemma length_shuffleArray: "length (shuffleArray rand array) = length array"
  by (simp add: shuffleArray_def shuffle_loop_inv)

lemma set_shuffleArray: "set (shuffleArray rand array) = set array"
  using mset_shuffleArray[of rand array] by (metis set_mset_mset)

lemma set_potentialQuotes_of:
  "set (potentialQuotes_of docs) = {q. \<exists>d \<in> set docs. candidate d = Some q}"
  by (induction docs) (auto simp: potentialQuotes_of_def split: option.splits)

lemma fetch_success:
  assumes "cachedQuotes s = []" and "potentialQuotes_of docs \<noteq> []"
  shows "cachedQuotes (fetchAndCacheQuotes s (BatchOk (Some docs)) rand)
         = take MAX_CACHED_QUOTES (shuffleArray rand (potentialQuotes_of docs))"
proof -
  have "docs \<noteq> []" using assms(2) by (auto simp: potentialQuotes_of_def)
  then show ?thesis using assms by (simp add: fetchAndCacheQuotes_def Let_def)
qed

lemma fetch_cache_cases:
  assumes "cachedQuotes s = []"
  shows "cachedQuotes (fetchAndCacheQuotes s batch rand) = [fallback_error]
       \<or> cachedQuotes (fetchAndCacheQuotes s batch rand) = [fallback_no_docs]
       \<or> cachedQuotes (fetchAndCacheQuotes s batch rand) = [fallback_no_suitable]
       \<or> (\<exists>docs. batch = BatchOk (Some docs) \<and> potentialQuotes_of docs \<noteq> []
            \<and> cachedQuotes (fetchAndCacheQuotes s batch rand)
                = take MAX_CACHED_QUOTES (shuffleArray rand (potentialQuotes_of docs)))"
  using assms
  by (auto simp: fetchAndCacheQuotes_def Let_def split: batch_response.splits option.splits)

lemma fetch_cached: "cachedQuotes s \<noteq> [] \<Longrightarrow> fetchAndCacheQuotes s batch rand = s"
  by (simp add: fetchAndCacheQuotes_def)

lemma fetch_cache_length:
  assumes "length (cachedQuotes s) \<le> MAX_CACHED_QUOTES"
  shows "length (cachedQuotes (fetchAndCacheQuotes s batch rand)) \<le> MAX_CACHED_QUOTES"
proof (cases "cachedQuotes s = []")
  case False
  then show ?thesis using assms by (simp add: fetch_cached)
next
  case True
  from fetch_cache_cases[OF True, of batch rand] show ?thesis
    by (auto simp: MAX_CACHED_QUOTES_def)
qed

lemma fetch_cache_nonempty: "cachedQuotes (fetchAndCacheQuotes s batch rand) \<noteq> []"
proof (cases "cachedQuotes s = []")
  case False
  then show ?thesis by (simp add: fetch_cached)
next
  case True
  from fetch_cache_cases[OF True, of batch rand] show ?thesis
  proof (elim disjE exE conjE)
    fix docs
    assume pq: "potentialQuotes_of docs \<noteq> []"
      and c: "cachedQuotes (fetchAndCacheQuotes s batch rand)
                = take MAX_CACHED_QUOTES (shuffleArray rand (potentialQuotes_of docs))"
    have "shuffleArray rand (potentialQuotes_of docs) \<noteq> []"
      using pq length_shuffleArray[of rand "potentialQuotes_of docs"] by auto
    then show ?thesis unfolding c by (simp add: MAX_CACHED_QUOTES_def)
  qed simp_all
qed

lemma shuffle_example:
  "shuffleArray rand_example [harbour_clean, bridge_clean] = [bridge_clean, harbour_clean]"
  by code_simp

lemma fetchCount_fetch: "fetchCount (fetchAndCacheQuotes s batch rand) \<le> fetchCount s + 1"
  by (auto simp: fetchAndCacheQuotes_def Let_def split: batch_response.splits option.splits)

lemma fetch_twice:
  "fetchAndCacheQuotes (fetchAndCacheQuotes s batch rand) batch' rand'
   = fetchAndCacheQuotes s batch rand"
  using fetch_cache_nonempty[of s batch rand] by (rule fetch_cached)

lemma fetchCount_startClick:
  "quotesReadyPromise s \<Longrightarrow> fetchCount (startClick s level mode batch rand) = fetchCount s"
  by (simp add: startClick_def startCountdown_def Let_def)

lemma potentialQuotes_keyless: "potentialQuotes_of [keyless_doc] = []"
  by (simp add: potentialQuotes_of_def candidate_others)

subsection \<open>The fallback sentences\<close>

lemma fallback_lengths:
  "length fallback_error = 137" "length fallback_no_docs = 133"
  "length fallback_no_suitable = 145" "length fallback_no_cache = 92"
  by (simp_all add: fallback_error_def fallback_no_docs_def fallback_no_suitable_def
      fallback_no_cache_def str_def)

lemma neq_if_length_neq: "length xs \<noteq> length ys \<Longrightarrow> xs \<noteq> ys"
  by auto

lemma fallbacks_distinct:
  "fallback_error \<noteq> fallback_no_docs" "fallback_error \<noteq> fallback_no_suitable"
  "fallback_error \<noteq> fallback_no_cache" "fallback_no_docs \<noteq> fallback_no_suitable"
  "fallback_no_docs \<noteq> fallback_no_cache" "fallback_no_suitable \<noteq> fallback_no_cache"
  by (rule neq_if_length_neq, simp add: fallback_lengths)+

lemma fallbacks_prefix:
  "take 44 fallback_error = str ''The quick brown fox jumps over the lazy dog.''"
  "take 44 fallback_no_docs = str ''The quick brown fox jumps over the lazy dog.''"
  "take 44 fallback_no_suitable = str ''The quick brown fox jumps over the lazy dog.''"
  "take 44 fallback_no_cache = str ''The quick brown fox jumps over the lazy dog.''"
  by (simp_all add: fallback_error_def fallback_no_docs_def fallback_no_suitable_def
      fallback_no_cache_def str_def)

text \<open>
  The status of the batch response is not read: a body that can be parsed is used whatever
  the response's \<open>ok\<close> flag says.
\<close>

lemma batch_unread_status:
  "cachedQuotes s = [] \<Longrightarrow> potentialQuotes_of docs \<noteq> [] \<Longrightarrow>
     cachedQuotes (fetchAndCacheQuotes s (batch_of (Response False (Parsed (Some docs)))) rand)
       = take MAX_CACHED_QUOTES (shuffleArray rand (potentialQuotes_of docs))"
  by (simp add: fetch_success)

section \<open>Claims\<close>

section \<open>What the cleaning guarantees\<close>

lemma isWhiteSpace_SP: "isWhiteSpace SP"
  by (simp add: isWhiteSpace_def SP_def)

lemma isWhiteSpace_LF: "isWhiteSpace LF" "LF \<noteq> SP"
  by (simp_all add: isWhiteSpace_def SP_def LF_def)

lemma isWhiteSpace_CR: "isWhiteSpace CR" "CR \<noteq> SP"
  by (simp_all add: isWhiteSpace_def SP_def CR_def)

lemma collapse_spaces_only_SP:
  "c \<in> set (collapse_spaces xs) \<Longrightarrow> isWhiteSpace c \<Longrightarrow> c = SP"
proof (induction xs rule: collapse_spaces.induct)
  case 1
  then show ?case by simp
next
  case (2 d ds)
  then show ?case by (auto split: if_splits)
qed

lemma collapse_spaces_hd:
  "xs \<noteq> [] \<Longrightarrow> \<not> isWhiteSpace (hd xs) \<Longrightarrow>
     collapse_spaces xs \<noteq> [] \<and> hd (collapse_spaces xs) = hd xs"
  by (cases xs) auto

lemma collapse_spaces_Nil: "collapse_spaces xs = [] \<longleftrightarrow> xs = []"
  by (cases xs) auto

lemma collapse_spaces_no_adjacent:
  "successively (\<lambda>a b. \<not> (isWhiteSpace a \<and> isWhiteSpace b)) (collapse_spaces xs)"
proof (induction xs rule: collapse_spaces.induct)
  case 1
  then show ?case by simp
next
  case (2 c cs)
  show ?case
  proof (cases "isWhiteSpace c")
    case True
    let ?r = "dropWhile isWhiteSpace cs"
    have ih: "successively (\<lambda>a b. \<not> (isWhiteSpace a \<and> isWhiteSpace b)) (collapse_spaces ?r)"
      using "2.IH"(1)[OF True] .
    have "collapse_spaces ?r = [] \<or> \<not> isWhiteSpace (hd (collapse_spaces ?r))"
    proof (cases "?r = []")
      case True
      have "collapse_spaces ?r = []" unfolding True by (rule collapse_spaces.simps(1))
      then show ?thesis by (rule disjI1)
    next
      case False
      then have "\<not> isWhiteSpace (hd ?r)" by (rule hd_dropWhile)
      then show ?thesis using collapse_spaces_hd[OF False] by simp
    qed
    then show ?thesis using True ih by (auto simp: successively_Cons)
  next
    case False
    then show ?thesis using "2.IH"(2)[OF False] by (simp add: successively_Cons)
  qed
qed

lemma successively_dropWhile: "successively P xs \<Longrightarrow> successively P (dropWhile Q xs)"
  by (induction xs) (auto simp: successively_Cons)

lemma set_trim: "set (trim t) \<subseteq> set t"
  unfolding trim_def by (auto dest!: set_dropWhileD)

lemma successively_trim:
  assumes "successively (\<lambda>a b. \<not> (isWhiteSpace a \<and> isWhiteSpace b)) t"
  shows "successively (\<lambda>a b. \<not> (isWhiteSpace a \<and> isWhiteSpace b)) (trim t)"
proof -
  have 1: "successively (\<lambda>a b. \<not> (isWhiteSpace a \<and> isWhiteSpace b)) (dropWhile isWhiteSpace t)"
    using assms by (rule successively_dropWhile)
  have 2: "successively (\<lambda>a b. \<not> (isWhiteSpace b \<and> isWhiteSpace a)) (dropWhile isWhiteSpace t)"
    using 1 by (rule successively_mono) auto
  have 3: "successively (\<lambda>a b. \<not> (isWhiteSpace a \<and> isWhiteSpace b)) (rev (dropWhile isWhiteSpace t))"
    using 2 by simp
  have 4: "successively (\<lambda>a b. \<not> (isWhiteSpace a \<and> isWhiteSpace b))
             (dropWhile isWhiteSpace (rev (dropWhile isWhiteSpace t)))"
    using 3 by (rule successively_dropWhile)
  have 5: "successively (\<lambda>a b. \<not> (isWhiteSpace b \<and> isWhiteSpace a))
             (dropWhile isWhiteSpace (rev (dropWhile isWhiteSpace t)))"
    using 4 by (rule successively_mono) auto
  show ?thesis unfolding trim_def using 5 by simp
qed

lemma cleanText_only_SP: "c \<in> set (cleanText raw) \<Longrightarrow> isWhiteSpace c \<Longrightarrow> c = SP"
  unfolding cleanText_def using set_trim collapse_spaces_only_SP by blast

lemma cleanText_no_linebreak: "LF \<notin> set (cleanText raw) \<and> CR \<notin> set (cleanText raw)"
  using cleanText_only_SP[of LF raw] cleanText_only_SP[of CR raw] isWhiteSpace_LF isWhiteSpace_CR
  by blast

lemma cleanText_no_double_space: "successively (\<lambda>a b. \<not> (a = SP \<and> b = SP)) (cleanText raw)"
proof -
  have "successively (\<lambda>a b. \<not> (isWhiteSpace a \<and> isWhiteSpace b)) (cleanText raw)"
    unfolding cleanText_def by (intro successively_trim collapse_spaces_no_adjacent)
  then show ?thesis by (rule successively_mono) (auto simp: isWhiteSpace_SP)
qed

lemma candidate_Some:
  assumes "candidate d = Some q"
  shows "\<exists>raw. q = cleanText raw \<and> 100 < length q"
  using assms
  by (auto simp: candidate_def Let_def
      split: option.splits if_splits detail_response.splits jtext.splits)

lemma candidate_well_cleaned: "candidate d = Some q \<Longrightarrow> well_cleaned q"
  using candidate_Some[of d q] cleanText_no_linebreak cleanText_no_double_space
  by (auto simp: well_cleaned_def)

lemma fallbacks_well_cleaned:
  "well_cleaned fallback_error" "well_cleaned fallback_no_docs" "well_cleaned fallback_no_suitable"
  by code_simp+

lemma cleanText_harbour: "cleanText harbour_raw = harbour_clean"
  by code_simp

text \<open>
  C1. At finalization \<open>correctChars\<close> is the number of positions
  \<open>i < min(len(typedText), len(passage))\<close> with \<open>typedText[i] = passage[i]\<close>;
  \<open>wpm = round((correctChars / 5) / (durationSeconds / 60))\<close> for a positive duration and 0
  otherwise; \<open>accuracyPercent = round(correctChars / totalTypedChars * 100)\<close> when something
  was typed and 0 otherwise; "Hxllo world" against "Hello world" gives 91.

  \<open>endTest\<close> counts as the claim says and agrees with it on the example, but it computes
  the two quotients in binary64 and rounds what comes out. With 23 correct characters of
  40 typed the exact value is 57.5, the computed product lies just below, and the page
  shows 57 where the claim gives 58. With the 137 characters of the fallback sentence
  typed without error in 24 seconds the exact value is 68.5 and the page shows 68, not 69.
\<close>

theorem endTest_rounding_divergence:
  "spec_correctChars (textInput_value tie_typed_example) (currentQuote tie_typed_example) = 23
   \<and> length (textInput_value tie_typed_example) = 40
   \<and> resultDisplay (step tie_typed_example (Stop 130000))
       = Some \<lparr>wpm = 9, accuracy = 57, errors_shown = 17\<rparr>
   \<and> spec_accuracy 23 40 = 58
   \<and> spec_wpm 23 ((130000 - 100000) / 1000) = 9
   \<and> resultDisplay all_typed_example = Some \<lparr>wpm = 68, accuracy = 100, errors_shown = 0\<rparr>
   \<and> spec_correctChars fallback_error fallback_error = 137
   \<and> spec_wpm 137 ((124000 - 100000) / 1000) = 69
   \<and> spec_accuracy 137 137 = 100
   \<and> resultDisplay (endTest session_example 13000)
       = Some \<lparr>wpm = 10, accuracy = 91, errors_shown = 1\<rparr>
   \<and> spec_accuracy 10 11 = 91"
proof -
  have c: "spec_correctChars tie_typed fallback_error = 23"
    "spec_correctChars fallback_error fallback_error = 137"
    unfolding correct_loop_spec[symmetric] by (simp_all add: tie_typed_counts)
  have r1: "resultDisplay (step tie_typed_example (Stop 130000))
       = Some \<lparr>wpm = 9, accuracy = 57, errors_shown = 17\<rparr>"
    by (simp add: stopTest_def endTest_def Let_def tie_typed_example_eq tie_typed_counts tie_numbers
        tie_typed_nonempty)
  have r2: "resultDisplay all_typed_example = Some \<lparr>wpm = 68, accuracy = 100, errors_shown = 0\<rparr>"
    by (simp add: all_typed_example_def running_fallback_example_eq handleInput_def endTest_def
        Let_def tie_typed_counts tie_numbers tie_typed_nonempty)
  have r3: "resultDisplay (endTest session_example 13000)
       = Some \<lparr>wpm = 10, accuracy = 91, errors_shown = 1\<rparr>"
    by (simp add: endTest_def Let_def session_example_def hxllo_example)
  show ?thesis
    using c r1 r2 r3 by (simp add: tie_typed_example_eq tie_typed_counts spec_numbers)
qed

text \<open>
  C2. After every input event while a test is running, the error count is to equal the
  number of positions \<open>i < min(len(P), len(Q))\<close> with \<open>P[i] \<noteq> Q[i]\<close>, for the typed text
  \<open>P\<close> and the passage \<open>Q\<close>, and so never to exceed \<open>len(P)\<close>.

  The code breaks this in "no-backspace" mode. With "x" typed against "abcdef" the count
  is 1, as it should be. An input event of type \<open>deleteContentBackward\<close> that has emptied
  the field then makes \<open>handleInput\<close> call \<open>preventDefault\<close>, which cannot undo the edit an
  input event reports, and return before the loop: the test is still running, the typed
  text is empty, the mismatch count of the claim is 0, and the error count is still 1.
\<close>

theorem errorCount_stale_after_ignored_delete:
  "isTestActive typed_x_example
   \<and> errors typed_x_example = spec_errorCount (textInput_value typed_x_example) (currentQuote typed_x_example)
   \<and> selectedMode typed_x_example = ''no-backspace''
   \<and> isTestActive (step typed_x_example (Edit ''deleteContentBackward'' [] 5900))
   \<and> textInput_value (step typed_x_example (Edit ''deleteContentBackward'' [] 5900)) = []
   \<and> errors (step typed_x_example (Edit ''deleteContentBackward'' [] 5900)) = 1
   \<and> spec_errorCount (textInput_value (step typed_x_example (Edit ''deleteContentBackward'' [] 5900)))
                     (currentQuote (step typed_x_example (Edit ''deleteContentBackward'' [] 5900))) = 0
   \<and> \<not> errors (step typed_x_example (Edit ''deleteContentBackward'' [] 5900))
         \<le> length (textInput_value (step typed_x_example (Edit ''deleteContentBackward'' [] 5900)))"
proof -
  have before: "errors typed_x_example
                 = spec_errorCount (textInput_value typed_x_example) (currentQuote typed_x_example)"
    unfolding errors_loop_spec[symmetric]
    by (simp add: typed_x_example_eq str_def errors_loop.simps)
  show ?thesis
    using before by (simp add: typed_x_example_eq handleInput_def spec_errorCount_Nil)
qed




text \<open>
  C6 (as amended). In every mode other than "story", an input event that \<open>handleInput\<close>
  processes during a running test and that leaves the typed text at least as long as the
  passage ends the test at once: the test is no longer active and the timer is cancelled.
  In "story" mode no timer tick and no input event ends the test, not even one that
  completes the passage; it stays active until the stop button is clicked.
\<close>

theorem completion_ends_test:
  "(isTestActive s \<longrightarrow> selectedMode s \<noteq> ''story'' \<longrightarrow>
      \<not> (selectedMode s = ''no-backspace'' \<and> inputType = ''deleteContentBackward'') \<longrightarrow>
      length (currentQuote s) \<le> length (textInput_value s) \<longrightarrow>
        \<not> isTestActive (handleInput s inputType now)
        \<and> intervalId (handleInput s inputType now) = NoTimer)
   \<and> (selectedMode s = ''story'' \<longrightarrow> (\<forall>e \<in> set es. \<forall>t. e \<noteq> Stop t) \<longrightarrow>
        isTestActive (run (startTest s now r) es)
        \<and> \<not> isTestActive (step (run (startTest s now r) es) (Stop now')))"
proof (intro conjI impI)
  assume "isTestActive s" "selectedMode s \<noteq> ''story''"
    "\<not> (selectedMode s = ''no-backspace'' \<and> inputType = ''deleteContentBackward'')"
    "length (currentQuote s) \<le> length (textInput_value s)"
  then show "\<not> isTestActive (handleInput s inputType now)"
    and "intervalId (handleInput s inputType now) = NoTimer"
    by (auto simp: handleInput_def Let_def isTestActive_endTest intervalId_endTest)
next
  assume m: "selectedMode s = ''story''" and es: "\<forall>e \<in> set es. \<forall>t. e \<noteq> Stop t"
  have "story_inv (run (startTest s now r) es)"
    using story_inv_startTest[OF m] es by (rule story_inv_run)
  then show "isTestActive (run (startTest s now r) es)" by (simp add: story_inv_def)
  show "\<not> isTestActive (step (run (startTest s now r) es) (Stop now'))"
    by (simp add: stopTest_ends)
qed

text \<open>
  In "no-backspace" mode the sixth character ends the test; a story-mode test survives the
  full passage and two ticks, and ends on Stop.
\<close>

theorem completion_ends_test_witness:
  "\<not> isTestActive (step typed_abc_example (Edit ''insertText'' (str ''abcdeX'') 9000))
   \<and> intervalId (step typed_abc_example (Edit ''insertText'' (str ''abcdeX'') 9000)) = NoTimer
   \<and> isTestActive (run (startTest story_idle_example 5000 0)
                     [Edit ''insertText'' (str ''abcdef'') 9000, Tick 10000, Tick 11000])
   \<and> \<not> isTestActive (step (run (startTest story_idle_example 5000 0)
                     [Edit ''insertText'' (str ''abcdef'') 9000, Tick 10000, Tick 11000]) (Stop 12000))"
proof -
  let ?s = "typed_abc_example\<lparr>textInput_value := str ''abcdeX''\<rparr>"
  let ?es = "[Edit ''insertText'' (str ''abcdef'') 9000, Tick 10000, Tick 11000]"
  have a: "isTestActive ?s" "selectedMode ?s \<noteq> ''story''"
    "\<not> (selectedMode ?s = ''no-backspace'' \<and> ''insertText'' = ''deleteContentBackward'')"
    "length (currentQuote ?s) \<le> length (textInput_value ?s)"
    by (simp_all add: typed_abc_example_eq str_def)
  have b: "selectedMode story_idle_example = ''story''"
    by (simp add: story_idle_example_def)
  have c: "\<forall>e \<in> set ?es. \<forall>t. e \<noteq> Stop t" by simp
  from completion_ends_test[where s = "?s" and inputType = "''insertText''" and now = 9000] a
  have 1: "\<not> isTestActive (handleInput ?s ''insertText'' 9000)
           \<and> intervalId (handleInput ?s ''insertText'' 9000) = NoTimer" by blast
  from completion_ends_test[where s = story_idle_example and es = "?es" and now = 5000 and r = 0
      and now' = 12000] b c
  have 2: "isTestActive (run (startTest story_idle_example 5000 0) ?es)
        \<and> \<not> isTestActive (step (run (startTest story_idle_example 5000 0) ?es) (Stop 12000))" by blast
  from 1 2 show ?thesis unfolding typed_abc_step by blast
qed

text \<open>
  C6 as stated fails in its second half: a story-mode test does not end when the full
  passage is typed (the completion check of \<open>handleInput\<close> excludes story mode), and it
  does end, with nothing typed, when the stop button is clicked.
\<close>

theorem story_completion_counterexample:
  "selectedMode story_typed_example = ''story''
   \<and> textInput_value story_typed_example = currentQuote story_typed_example
   \<and> currentQuote story_typed_example = str ''abcdef''
   \<and> isTestActive story_typed_example
   \<and> textInput_value (startTest story_idle_example 5000 0) = []
   \<and> \<not> isTestActive (step (startTest story_idle_example 5000 0) (Stop 6000))"
  by (simp add: story_typed_example_eq stopTest_ends story_idle_example_def idle_example_def
      startTest_def getNewQuote_def Let_def)

text \<open>
  C9. Finalization is deterministic in the triple (typed text, passage, duration): two runs
  of \<open>endTest\<close>, from any two states and clock readings that agree on the typed text, the
  passage and the elapsed milliseconds, show the same \<open>wpm\<close> and the same accuracy,
  whatever the other variables hold.
\<close>

theorem endTest_deterministic:
  assumes "textInput_value s1 = textInput_value s2"
    and "currentQuote s1 = currentQuote s2"
    and "now1 - startTime s1 = now2 - startTime s2"
  shows "map_option wpm (resultDisplay (endTest s1 now1)) = map_option wpm (resultDisplay (endTest s2 now2))
       \<and> map_option accuracy (resultDisplay (endTest s1 now1))
           = map_option accuracy (resultDisplay (endTest s2 now2))"
  using assms by (simp add: endTest_resultDisplay)

text \<open>Two states that differ in start time, error count, mode and time left.\<close>

theorem endTest_deterministic_witness:
  "textInput_value session_example = textInput_value (session_example\<lparr>startTime := 500, errors := 7, selectedMode := ''story'', timeLeft := 3\<rparr>)
   \<and> session_example \<noteq> session_example\<lparr>startTime := 500, errors := 7, selectedMode := ''story'', timeLeft := 3\<rparr>
   \<and> map_option wpm (resultDisplay (endTest session_example 13000))
       = map_option wpm (resultDisplay (endTest (session_example\<lparr>startTime := 500, errors := 7, selectedMode := ''story'', timeLeft := 3\<rparr>) 12500))
   \<and> map_option accuracy (resultDisplay (endTest session_example 13000))
       = map_option accuracy (resultDisplay (endTest (session_example\<lparr>startTime := 500, errors := 7, selectedMode := ''story'', timeLeft := 3\<rparr>) 12500))"
proof -
  let ?s2 = "session_example\<lparr>startTime := 500, errors := 7, selectedMode := ''story'', timeLeft := 3\<rparr>"
  have a: "textInput_value session_example = textInput_value ?s2" by simp
  have b: "currentQuote session_example = currentQuote ?s2" by simp
  have c: "13000 - startTime session_example = 12500 - startTime ?s2" by (simp add: session_example_def)
  have d: "session_example \<noteq> ?s2"
  proof
    assume "session_example = ?s2"
    then have "errors session_example = errors ?s2" by (rule arg_cong)
    then show False by (simp add: session_example_def)
  qed
  from endTest_deterministic[OF a b c] a d show ?thesis by blast
qed

text \<open>
  C10. For every typed text, passage and duration the result shown by \<open>endTest\<close> has
  \<open>0 \<le> accuracy \<le> 100\<close> and \<open>wpm \<ge> 0\<close>; the number of correct characters never exceeds
  the number of typed characters, and characters typed beyond the end of the passage are
  not counted as correct (while they do count in the denominator of the accuracy).
\<close>

theorem endTest_result_bounds:
  "(\<exists>r. resultDisplay (endTest s now) = Some r
        \<and> 0 \<le> accuracy r \<and> accuracy r \<le> 100 \<and> 0 \<le> wpm r)
   \<and> correct_loop (textInput_value s) (currentQuote s) 0 0 \<le> length (textInput_value s)
   \<and> correct_loop (textInput_value s) (currentQuote s) 0 0
       = correct_loop (take (length (currentQuote s)) (textInput_value s)) (currentQuote s) 0 0"
proof -
  let ?c = "spec_correctChars (textInput_value s) (currentQuote s)"
  have le: "?c \<le> length (textInput_value s)" by (rule spec_correctChars_le)
  have a: "0 \<le> shown_accuracy ?c (length (textInput_value s))
           \<and> shown_accuracy ?c (length (textInput_value s)) \<le> 100"
    using le by (rule shown_accuracy_bounds)
  have w: "0 \<le> shown_wpm ?c (num_div (num_div (of_int (now - startTime s)) 1000) 60)"
    by (rule shown_wpm_nonneg)
  show ?thesis
    using a w le by (simp add: endTest_resultDisplay correct_loop_spec spec_correctChars_take)
qed

text \<open>
  C7. \<open>shuffleArray\<close> returns a permutation of its input: the same elements with the same
  multiplicities, whatever the random draws. After a fetch cycle in which at least one
  candidate survives, the cache is the first 20 elements of such a permutation of the
  surviving candidates, so every cached passage is one of them; and no fetch cycle leaves
  more than 20 passages in the cache.
\<close>

theorem shuffle_truncate:
  "mset (shuffleArray rand array) = mset array
   \<and> (cachedQuotes s = [] \<longrightarrow> potentialQuotes_of docs \<noteq> [] \<longrightarrow>
        cachedQuotes (fetchAndCacheQuotes s (BatchOk (Some docs)) rand)
          = take 20 (shuffleArray rand (potentialQuotes_of docs))
        \<and> set (cachedQuotes (fetchAndCacheQuotes s (BatchOk (Some docs)) rand))
            \<subseteq> {q. \<exists>d \<in> set docs. candidate d = Some q})
   \<and> (length (cachedQuotes s) \<le> 20 \<longrightarrow>
        length (cachedQuotes (fetchAndCacheQuotes s batch rand)) \<le> 20)"
proof (intro conjI impI)
  show "mset (shuffleArray rand array) = mset array" by (rule mset_shuffleArray)
next
  assume a: "cachedQuotes s = []" "potentialQuotes_of docs \<noteq> []"
  show c: "cachedQuotes (fetchAndCacheQuotes s (BatchOk (Some docs)) rand)
          = take 20 (shuffleArray rand (potentialQuotes_of docs))"
    using fetch_success[OF a] by (simp add: MAX_CACHED_QUOTES_def)
  have "set (take 20 (shuffleArray rand (potentialQuotes_of docs)))
          \<subseteq> set (shuffleArray rand (potentialQuotes_of docs))" by (rule set_take_subset)
  then show "set (cachedQuotes (fetchAndCacheQuotes s (BatchOk (Some docs)) rand))
            \<subseteq> {q. \<exists>d \<in> set docs. candidate d = Some q}"
    unfolding c set_shuffleArray set_potentialQuotes_of .
next
  assume "length (cachedQuotes s) \<le> 20"
  then show "length (cachedQuotes (fetchAndCacheQuotes s batch rand)) \<le> 20"
    using fetch_cache_length[of s batch rand] by (simp add: MAX_CACHED_QUOTES_def)
qed

text \<open>
  Five documents of which two survive; the draws swap them, and both fit into the cache.
\<close>

theorem shuffle_truncate_witness:
  "cachedQuotes fresh_example = [] \<and> potentialQuotes_of docs_example \<noteq> []
   \<and> length (cachedQuotes fresh_example) \<le> 20
   \<and> cachedQuotes (fetchAndCacheQuotes fresh_example (BatchOk (Some docs_example)) rand_example)
       = [bridge_clean, harbour_clean]
   \<and> mset (shuffleArray rand_example [harbour_clean, bridge_clean])
       = mset [harbour_clean, bridge_clean]
   \<and> length (cachedQuotes (fetchAndCacheQuotes fresh_example (BatchOk (Some docs_example)) rand_example)) \<le> 20"
proof -
  have a: "cachedQuotes fresh_example = []" by (simp add: fresh_example_def)
  have b: "potentialQuotes_of docs_example \<noteq> []" by (simp add: potentialQuotes_example)
  have c: "length (cachedQuotes fresh_example) \<le> 20" by (simp add: a)
  from shuffle_truncate[of rand_example "[harbour_clean, bridge_clean]" fresh_example docs_example
      "BatchOk (Some docs_example)"] a b c
  show ?thesis by (simp add: potentialQuotes_example shuffle_example)
qed

text \<open>
  C5. The five cleaning steps in order (line breaks to a space, a space after sentence
  punctuation before a letter, a space at a lowercase-uppercase boundary, white-space runs
  to one space, trim) leave no line feed, no carriage return and no two consecutive
  spaces in any text; the only white space left is the single space. A candidate is admitted only as a cleaned text longer than 100, so
  every passage a fetch cycle puts into the cache is longer than 100, free of line breaks
  and free of double spaces.
\<close>

theorem cleaned_passages:
  "LF \<notin> set (cleanText raw) \<and> CR \<notin> set (cleanText raw)
   \<and> successively (\<lambda>a b. \<not> (a = SP \<and> b = SP)) (cleanText raw)
   \<and> (c \<in> set (cleanText raw) \<longrightarrow> isWhiteSpace c \<longrightarrow> c = SP)
   \<and> (candidate d = Some q \<longrightarrow> (\<exists>raw'. q = cleanText raw') \<and> well_cleaned q)
   \<and> (cachedQuotes s = [] \<longrightarrow>
        (\<forall>q' \<in> set (cachedQuotes (fetchAndCacheQuotes s batch rand)). well_cleaned q'))"
proof (intro conjI impI ballI)
  show "LF \<notin> set (cleanText raw)" "CR \<notin> set (cleanText raw)"
    using cleanText_no_linebreak by blast+
  show "successively (\<lambda>a b. \<not> (a = SP \<and> b = SP)) (cleanText raw)"
    by (rule cleanText_no_double_space)
next
  assume "c \<in> set (cleanText raw)" "isWhiteSpace c"
  then show "c = SP" by (rule cleanText_only_SP)
next
  assume c: "candidate d = Some q"
  show "\<exists>raw'. q = cleanText raw'" using candidate_Some[OF c] by blast
  show "well_cleaned q" using c by (rule candidate_well_cleaned)
next
  fix q'
  assume e: "cachedQuotes s = []"
    and q': "q' \<in> set (cachedQuotes (fetchAndCacheQuotes s batch rand))"
  from fetch_cache_cases[OF e, of batch rand] show "well_cleaned q'"
  proof (elim disjE exE conjE)
    fix docs
    assume c: "cachedQuotes (fetchAndCacheQuotes s batch rand)
                = take MAX_CACHED_QUOTES (shuffleArray rand (potentialQuotes_of docs))"
    have "q' \<in> set (shuffleArray rand (potentialQuotes_of docs))"
      using q' unfolding c by (rule in_set_takeD)
    then obtain d' where "candidate d' = Some q'"
      unfolding set_shuffleArray set_potentialQuotes_of by blast
    then show ?thesis by (rule candidate_well_cleaned)
  qed (use q' fallbacks_well_cleaned in auto)
qed

text \<open>
  A description with two line feeds and two missing spaces is admitted in its cleaned
  form, and the cache built from the five example documents satisfies the three properties.
\<close>

theorem cleaned_passages_witness:
  "candidate harbour_doc = Some harbour_clean \<and> cachedQuotes fresh_example = []
   \<and> harbour_clean = cleanText harbour_raw
   \<and> well_cleaned harbour_clean
   \<and> LF \<in> set harbour_raw
   \<and> well_cleaned bridge_clean
   \<and> cachedQuotes (fetchAndCacheQuotes fresh_example (BatchOk (Some docs_example)) rand_example)
       = [bridge_clean, harbour_clean]"
proof -
  have a: "cachedQuotes fresh_example = []" by (simp add: fresh_example_def)
  have c: "cachedQuotes (fetchAndCacheQuotes fresh_example (BatchOk (Some docs_example)) rand_example)
       = [bridge_clean, harbour_clean]"
    using a by (simp add: fetch_success potentialQuotes_example shuffle_example MAX_CACHED_QUOTES_def)
  have l: "LF \<in> set harbour_raw" by code_simp
  from cleaned_passages[where raw = harbour_raw and d = harbour_doc and q = harbour_clean
      and s = fresh_example and batch = "BatchOk (Some docs_example)" and rand = rand_example
      and c = SP]
    candidate_harbour a c l cleanText_harbour
  show ?thesis by simp
qed

text \<open>
  C8. \<open>fetchAndCacheQuotes\<close> is idempotent: with at least one passage in the cache it
  returns at once and changes nothing; every call leaves the cache non-empty, so a second
  call in sequence is such a call, and two calls in sequence fetch the batch at most once.
  The start button never fetches again after the call made at page load.
\<close>

theorem ensureReady_idempotent:
  "(cachedQuotes s \<noteq> [] \<longrightarrow> fetchAndCacheQuotes s batch rand = s)
   \<and> cachedQuotes (fetchAndCacheQuotes s batch rand) \<noteq> []
   \<and> fetchAndCacheQuotes (fetchAndCacheQuotes s batch rand) batch' rand'
       = fetchAndCacheQuotes s batch rand
   \<and> fetchCount (fetchAndCacheQuotes (fetchAndCacheQuotes s batch rand) batch' rand')
       \<le> fetchCount s + 1
   \<and> fetchCount (startClick (pageLoad s batch rand) level mode batch' rand')
       = fetchCount (pageLoad s batch rand)"
proof (intro conjI impI)
  assume "cachedQuotes s \<noteq> []"
  then show "fetchAndCacheQuotes s batch rand = s" by (rule fetch_cached)
next
  show "cachedQuotes (fetchAndCacheQuotes s batch rand) \<noteq> []" by (rule fetch_cache_nonempty)
  show "fetchAndCacheQuotes (fetchAndCacheQuotes s batch rand) batch' rand'
       = fetchAndCacheQuotes s batch rand" by (rule fetch_twice)
  show "fetchCount (fetchAndCacheQuotes (fetchAndCacheQuotes s batch rand) batch' rand')
       \<le> fetchCount s + 1" unfolding fetch_twice by (rule fetchCount_fetch)
  show "fetchCount (startClick (pageLoad s batch rand) level mode batch' rand')
       = fetchCount (pageLoad s batch rand)"
    by (rule fetchCount_startClick) (simp add: pageLoad_def)
qed

text \<open>
  One fetch at page load; the second call and a click on the start button fetch nothing.
\<close>

theorem ensureReady_idempotent_witness:
  "cachedQuotes idle_example \<noteq> []
   \<and> fetchAndCacheQuotes idle_example (BatchOk (Some docs_example)) rand_example = idle_example
   \<and> fetchCount fresh_example = 0
   \<and> fetchCount (fetchAndCacheQuotes fresh_example (BatchOk (Some docs_example)) rand_example) = 1
   \<and> fetchCount (fetchAndCacheQuotes
                   (fetchAndCacheQuotes fresh_example (BatchOk (Some docs_example)) rand_example)
                   BatchFails rand_example) = 1
   \<and> fetchCount (startClick (pageLoad fresh_example (BatchOk (Some docs_example)) rand_example)
                   ''easy'' ''normal'' BatchFails rand_example) = 1"
proof -
  have a: "cachedQuotes idle_example \<noteq> []" by (simp add: idle_example_def)
  have e: "cachedQuotes fresh_example = []" by (simp add: fresh_example_def)
  have n: "docs_example \<noteq> []" by (simp add: docs_example_def)
  have f: "fetchCount (fetchAndCacheQuotes fresh_example (BatchOk (Some docs_example)) rand_example) = 1"
    using e n by (simp add: fetchAndCacheQuotes_def Let_def fresh_example_def)
  have p: "fetchCount (pageLoad fresh_example (BatchOk (Some docs_example)) rand_example) = 1"
    using f by (simp add: pageLoad_def)
  have z: "fetchCount fresh_example = 0" by (simp add: fresh_example_def)
  from ensureReady_idempotent[of idle_example "BatchOk (Some docs_example)" rand_example]
  have 1: "fetchAndCacheQuotes idle_example (BatchOk (Some docs_example)) rand_example = idle_example"
    using a by blast
  from ensureReady_idempotent[of fresh_example "BatchOk (Some docs_example)" rand_example
      BatchFails rand_example "''easy''" "''normal''"]
  have 2: "fetchAndCacheQuotes
             (fetchAndCacheQuotes fresh_example (BatchOk (Some docs_example)) rand_example)
             BatchFails rand_example
           = fetchAndCacheQuotes fresh_example (BatchOk (Some docs_example)) rand_example"
    and 3: "fetchCount (startClick (pageLoad fresh_example (BatchOk (Some docs_example)) rand_example)
                   ''easy'' ''normal'' BatchFails rand_example)
            = fetchCount (pageLoad fresh_example (BatchOk (Some docs_example)) rand_example)"
    by blast+
  show ?thesis using a z f p 1 3 unfolding 2 by simp
qed

text \<open>
  C3 (as amended). Whenever the batch request is rejected or the body of its response
  cannot be parsed or read, the cache is populated with exactly one fixed sentence;
  whenever a successful response holds no documents, with exactly one other fixed
  sentence; whenever a successful response holds documents of which no candidate survives
  the cleaning, with a third; and \<open>getNewQuote\<close> called with an empty cache returns a fourth
  fixed sentence rather than failing. The four sentences are pairwise different and all
  begin with "The quick brown fox jumps over the lazy dog."
\<close>

theorem fallback_sentences:
  "(cachedQuotes s = [] \<longrightarrow>
      cachedQuotes (fetchAndCacheQuotes s (batch_of Rejected) rand) = [fallback_error]
      \<and> cachedQuotes (fetchAndCacheQuotes s (batch_of (Response ok Unreadable)) rand)
          = [fallback_error]
      \<and> cachedQuotes (fetchAndCacheQuotes s (batch_of (Response True (Parsed None))) rand)
          = [fallback_no_docs]
      \<and> cachedQuotes (fetchAndCacheQuotes s (batch_of (Response True (Parsed (Some [])))) rand)
          = [fallback_no_docs]
      \<and> (docs \<noteq> [] \<longrightarrow> potentialQuotes_of docs = [] \<longrightarrow>
           cachedQuotes (fetchAndCacheQuotes s (batch_of (Response True (Parsed (Some docs)))) rand)
             = [fallback_no_suitable])
      \<and> currentQuote (getNewQuote s r) = fallback_no_cache)
   \<and> distinct [fallback_error, fallback_no_docs, fallback_no_suitable, fallback_no_cache]
   \<and> take 44 fallback_error = str ''The quick brown fox jumps over the lazy dog.''
   \<and> take 44 fallback_no_docs = str ''The quick brown fox jumps over the lazy dog.''
   \<and> take 44 fallback_no_suitable = str ''The quick brown fox jumps over the lazy dog.''
   \<and> take 44 fallback_no_cache = str ''The quick brown fox jumps over the lazy dog.''"
  using fallbacks_distinct
  by (simp add: fallbacks_prefix fetchAndCacheQuotes_def getNewQuote_def Let_def)

text \<open>
  The failures on a fresh page (a rejected request, an unreadable body under a non-success
  status, a response without documents, a document without key), and \<open>getNewQuote\<close>
  before any fetch.
\<close>

theorem fallback_sentences_witness:
  "cachedQuotes fresh_example = [] \<and> [keyless_doc] \<noteq> [] \<and> potentialQuotes_of [keyless_doc] = []
   \<and> cachedQuotes (fetchAndCacheQuotes fresh_example (batch_of Rejected) rand_example)
       = [fallback_error]
   \<and> cachedQuotes (fetchAndCacheQuotes fresh_example (batch_of (Response False Unreadable)) rand_example)
       = [fallback_error]
   \<and> cachedQuotes (fetchAndCacheQuotes fresh_example (batch_of (Response True (Parsed None))) rand_example)
       = [fallback_no_docs]
   \<and> cachedQuotes (fetchAndCacheQuotes fresh_example
                      (batch_of (Response True (Parsed (Some [keyless_doc])))) rand_example)
       = [fallback_no_suitable]
   \<and> currentQuote (getNewQuote fresh_example 4) = fallback_no_cache
   \<and> fallback_error \<noteq> fallback_no_docs"
proof -
  have e: "cachedQuotes fresh_example = []" by (simp add: fresh_example_def)
  from fallback_sentences[where s = fresh_example and rand = rand_example
      and docs = "[keyless_doc]" and r = 4 and ok = False] e potentialQuotes_keyless
  show ?thesis by simp
qed

text \<open>
  C3 as stated fails: there is no single fallback sentence. A failed batch fetch, a batch
  without surviving candidates and \<open>getNewQuote\<close> on an empty cache produce three
  different sentences.
\<close>

theorem one_fallback_counterexample:
  "cachedQuotes fresh_example = []
   \<and> cachedQuotes (fetchAndCacheQuotes fresh_example BatchFails rand_example) = [fallback_error]
   \<and> cachedQuotes (fetchAndCacheQuotes fresh_example (BatchOk (Some [keyless_doc])) rand_example)
       = [fallback_no_suitable]
   \<and> currentQuote (getNewQuote fresh_example 0) = fallback_no_cache
   \<and> fallback_error \<noteq> fallback_no_suitable
   \<and> fallback_error \<noteq> fallback_no_cache
   \<and> fallback_no_suitable \<noteq> fallback_no_cache"
  by (simp add: fallbacks_distinct fetchAndCacheQuotes_def getNewQuote_def Let_def
      fresh_example_def potentialQuotes_keyless)

end
